theory Spec2Isabelle
  imports Main
begin

section \<open>Python values used by the exporter\<close>

text \<open>
  The exporter is one Python module, \<^verbatim>\<open>yasno_exporter.py\<close>. A key, a metric name, a
  label and a URL are Python \<^verbatim>\<open>str\<close> values; they are modelled as \<^typ>\<open>string\<close>, each
  \<^typ>\<open>char\<close> standing for the code point of the same number (0 to 255). On these code
  points \<^verbatim>\<open>str.isupper\<close> and \<^verbatim>\<open>str.lower\<close> are the functions below: the upper-case
  letters are A to Z (65 to 90) and the Latin-1 capitals 192 to 222 without the
  multiplication sign 215, and the lower-case form of each is 32 further on. Keys with
  code points from 256 on are outside the model.
\<close>

definition isupper :: "char \<Rightarrow> bool" where
  "isupper c =
     (let n = (of_char c :: nat)
      in (65 \<le> n \<and> n \<le> 90) \<or> (192 \<le> n \<and> n \<le> 222 \<and> n \<noteq> 215))"

definition lower :: "char \<Rightarrow> char" where
  "lower c = (if isupper c then char_of ((of_char c :: nat) + 32) else c)"

text \<open>\<^verbatim>\<open>key.replace(".", "_")\<close>: every full stop becomes an underscore.\<close>

definition replace_dot :: "string \<Rightarrow> string" where
  "replace_dot key = map (\<lambda>c. if c = CHR ''.'' then CHR ''_'' else c) key"

text \<open>
  An event summary is a \<^verbatim>\<open>str\<close> that is only ever compared with two Ukrainian literals,
  so it is kept as its list of code points, whatever their size.
\<close>

type_synonym pystr = "nat list"

text \<open>The exceptions that the module raises or lets through.\<close>

datatype exn =
    YasnoMetricException string
  | IndexError
  | AttributeError
  | ValueError
  | RequestException

section \<open>YasnoMetric: deriving the metric name\<close>

text \<open>
  \<^verbatim>\<open>re.match("[a-zA-Z_:][a-zA-Z0-9_:]*", new)\<close> matches at the start of \<^verbatim>\<open>new\<close> only:
  it returns the match object, whose text is the longest prefix of the pattern's shape,
  or \<^verbatim>\<open>None\<close> when the first character is not in the first class. The classes are
  ranges of ASCII code points.
\<close>

definition first_class :: "char \<Rightarrow> bool" where
  "first_class c =
     (let n = (of_char c :: nat)
      in (97 \<le> n \<and> n \<le> 122) \<or> (65 \<le> n \<and> n \<le> 90) \<or> c = CHR ''_'' \<or> c = CHR '':'')"

definition rest_class :: "char \<Rightarrow> bool" where
  "rest_class c =
     (let n = (of_char c :: nat)
      in (97 \<le> n \<and> n \<le> 122) \<or> (65 \<le> n \<and> n \<le> 90) \<or> (48 \<le> n \<and> n \<le> 57)
         \<or> c = CHR ''_'' \<or> c = CHR '':'')"

definition re_match :: "string \<Rightarrow> string option" where
  "re_match new =
     (case new of
        [] \<Rightarrow> None
      | c # cs \<Rightarrow> if first_class c then Some (c # takeWhile rest_class cs) else None)"

text \<open>
  The \<^verbatim>\<open>for character in key[1:]\<close> loop of \<^verbatim>\<open>convert_yasno_key_to_prometheus_name\<close>,
  with the string built so far as accumulator. \<^verbatim>\<open>new[-1]\<close> is its last character;
  \<^verbatim>\<open>new\<close> starts with one character and only grows.
\<close>

fun convert_loop :: "string \<Rightarrow> string \<Rightarrow> string" where
  "convert_loop new [] = new"
| "convert_loop new (character # rest) =
     convert_loop
       ((if isupper character \<and> \<not> last new = CHR ''_'' then new @ ''_'' else new)
          @ [lower character])
       rest"

text \<open>
  \<^verbatim>\<open>key[0]\<close> raises \<^verbatim>\<open>IndexError\<close> on the empty string, before the loop and before the
  check of the name. The check raises \<^verbatim>\<open>YasnoMetricException\<close>, whose message names the
  key, when \<^verbatim>\<open>re.match\<close> returns \<^verbatim>\<open>None\<close>.
\<close>

definition convert_yasno_key_to_prometheus_name :: "string \<Rightarrow> exn + string" where
  "convert_yasno_key_to_prometheus_name yasno_key =
     (case replace_dot yasno_key of
        [] \<Rightarrow> Inl IndexError
      | k0 # rest \<Rightarrow>
          (let new = convert_loop [lower k0] rest
           in if re_match new = None then Inl (YasnoMetricException yasno_key)
              else Inr new))"

section \<open>YasnoMetric: the gauge\<close>

text \<open>
  A \<^verbatim>\<open>Gauge\<close> of the metrics library holds one value for each label; \<^verbatim>\<open>REGISTRY\<close> is
  the library's global registry, kept here as the list of the registered names. The
  constructor is code of the library, not of the module: it registers the name, and it
  raises \<^verbatim>\<open>ValueError\<close> for a name that is registered already and for a name that the
  library's own check rejects. That check differs between versions of the library, so
  it is the parameter \<open>accepts\<close>.
\<close>

type_synonym gauge = "string \<rightharpoonup> int"

definition Gauge :: "(string \<Rightarrow> bool) \<Rightarrow> string \<Rightarrow> string list \<Rightarrow> exn + (gauge \<times> string list)" where
  "Gauge accepts gauge_name registry =
     (if \<not> accepts gauge_name \<or> gauge_name \<in> set registry then Inl ValueError
      else Inr (Map.empty, registry @ [gauge_name]))"

record yasno_metric =
  yasno_key :: string
  name :: string
  metric :: gauge

text \<open>\<^verbatim>\<open>YasnoMetric.__init__\<close>: the name is derived first, then the gauge is made.\<close>

definition YasnoMetric ::
  "(string \<Rightarrow> bool) \<Rightarrow> string \<Rightarrow> string list \<Rightarrow> exn + (yasno_metric \<times> string list)" where
  "YasnoMetric accepts key registry =
     (case convert_yasno_key_to_prometheus_name key of
        Inl e \<Rightarrow> Inl e
      | Inr converted \<Rightarrow>
          (case Gauge accepts (''yasno_'' @ converted) registry of
             Inl e \<Rightarrow> Inl e
           | Inr (g, registry') \<Rightarrow>
               Inr (\<lparr>yasno_key = key, name = ''yasno_'' @ converted, metric = g\<rparr>, registry')))"

section \<open>Worker\<close>

text \<open>
  Every call of \<^verbatim>\<open>log.debug\<close>, \<^verbatim>\<open>log.info\<close> and \<^verbatim>\<open>log.error\<close> is recorded, with the
  values that its message is formatted from.
\<close>

datatype log_record =
    Debug_set string int string
  | Debug_clear string
  | Debug_found string string
  | Debug_cannot_find string
  | Info_created string string
  | Error_raised exn

text \<open>
  The state of the process: the attributes of the one \<^verbatim>\<open>Worker\<close> (the interval, the
  list \<^verbatim>\<open>metrics_collector\<close> and the three keys), the library's registry, the log, and
  the number of times the clock has been read. A \<^verbatim>\<open>YasnoMetric\<close> object is reachable
  through \<^verbatim>\<open>metrics_collector\<close> only, which is only ever appended to, so a reference
  to the object is its position in that list.
\<close>

record world =
  collecting_interval_seconds :: int
  metrics_collector :: "yasno_metric list"
  BLACKOUT :: string
  POSSIBLE_BLACKOUT :: string
  NO_BLACKOUT :: string
  REGISTRY :: "string list"
  logged :: "log_record list"
  clock_reads :: nat

text \<open>
  \<^verbatim>\<open>Worker.__init__\<close>, in the process as \<^verbatim>\<open>main\<close> has prepared it: \<^verbatim>\<open>main\<close> unregisters
  every collector of the registry before it makes the worker.
\<close>

definition Worker :: "int \<Rightarrow> world" where
  "Worker interval =
     \<lparr>collecting_interval_seconds = interval,
      metrics_collector = [],
      BLACKOUT = ''blackout'',
      POSSIBLE_BLACKOUT = ''possible_blackout'',
      NO_BLACKOUT = ''no_blackout'',
      REGISTRY = [],
      logged = [],
      clock_reads = 0\<rparr>"

text \<open>\<^verbatim>\<open>YasnoMetric.set\<close> and \<^verbatim>\<open>YasnoMetric.clear\<close>, on the object at position \<open>i\<close>.\<close>

definition YasnoMetric_set :: "nat \<Rightarrow> int \<Rightarrow> string \<Rightarrow> world \<Rightarrow> world" where
  "YasnoMetric_set i v label w =
     (let m = metrics_collector w ! i
      in w\<lparr>logged := logged w @ [Debug_set (name m) v label],
           metrics_collector := (metrics_collector w)[i := m\<lparr>metric := (metric m)(label \<mapsto> v)\<rparr>]\<rparr>)"

definition YasnoMetric_clear :: "nat \<Rightarrow> world \<Rightarrow> world" where
  "YasnoMetric_clear i w =
     (let m = metrics_collector w ! i
      in w\<lparr>logged := logged w @ [Debug_clear (name m)],
           metrics_collector := (metrics_collector w)[i := m\<lparr>metric := Map.empty\<rparr>]\<rparr>)"

text \<open>
  \<^verbatim>\<open>get_metric_by_yasno_key\<close>: the first object of the list with the key, or \<^verbatim>\<open>False\<close>
  (here \<open>None\<close>). \<open>find_metric\<close> is its \<^verbatim>\<open>for\<close> loop, counting positions from \<open>i\<close>.
\<close>

fun find_metric :: "yasno_metric list \<Rightarrow> string \<Rightarrow> nat \<Rightarrow> nat option" where
  "find_metric [] key i = None"
| "find_metric (m # ms) key i =
     (if yasno_key m = key then Some i else find_metric ms key (Suc i))"

definition get_metric_by_yasno_key :: "string \<Rightarrow> world \<Rightarrow> nat option \<times> world" where
  "get_metric_by_yasno_key key w =
     (case find_metric (metrics_collector w) key 0 of
        Some i \<Rightarrow>
          (Some i, w\<lparr>logged := logged w @ [Debug_found (name (metrics_collector w ! i)) key]\<rparr>)
      | None \<Rightarrow> (None, w\<lparr>logged := logged w @ [Debug_cannot_find key]\<rparr>))"

text \<open>
  The body of \<^verbatim>\<open>for yasno_key in [...]\<close> in \<^verbatim>\<open>process_calendar\<close>. The result is the
  value of the variable \<^verbatim>\<open>metric\<close> at the end of the body: \<open>Inr (Some i)\<close> for the
  object found or made, \<open>Inr None\<close> after the \<^verbatim>\<open>continue\<close> of the handler, which
  catches \<^verbatim>\<open>YasnoMetricException\<close> and nothing else; any other exception leaves the body.
\<close>

definition ensure :: "(string \<Rightarrow> bool) \<Rightarrow> string \<Rightarrow> world \<Rightarrow> (exn + nat option) \<times> world" where
  "ensure accepts key w =
     (case get_metric_by_yasno_key key w of
        (Some i, w1) \<Rightarrow> (Inr (Some i), w1)
      | (None, w1) \<Rightarrow>
          (case YasnoMetric accepts key (REGISTRY w1) of
             Inl e \<Rightarrow>
               (case e of
                  YasnoMetricException k \<Rightarrow>
                    (Inr None, w1\<lparr>logged := logged w1 @ [Error_raised e]\<rparr>)
                | _ \<Rightarrow> (Inl e, w1))
           | Inr (m, registry') \<Rightarrow>
               (Inr (Some (length (metrics_collector w1))),
                w1\<lparr>REGISTRY := registry',
                   logged := logged w1 @ [Info_created (yasno_key m) (name m)],
                   metrics_collector := metrics_collector w1 @ [m]\<rparr>)))"

fun ensure_all :: "(string \<Rightarrow> bool) \<Rightarrow> string list \<Rightarrow> world \<Rightarrow> exn option \<times> world" where
  "ensure_all accepts [] w = (None, w)"
| "ensure_all accepts (key # keys) w =
     (case ensure accepts key w of
        (Inl e, w1) \<Rightarrow> (Some e, w1)
      | (Inr r, w1) \<Rightarrow> ensure_all accepts keys w1)"

section \<open>Reading the calendar\<close>

text \<open>
  An instant is a point of the UTC time line, in microseconds. A component of the
  parsed calendar has a name, and the properties that the module reads:
  \<^verbatim>\<open>component.get(...)\<close> is \<^verbatim>\<open>None\<close> for a property that the component lacks, and then
  \<^verbatim>\<open>.dt\<close> raises \<^verbatim>\<open>AttributeError\<close>. A start or end that is present is a time-zone
  aware datetime, as the feed's are.
\<close>

type_synonym instant = int

record component =
  component_name :: string
  summary :: "pystr option"
  dtstart :: "instant option"
  dtend :: "instant option"

text \<open>The two summaries of the \<^verbatim>\<open>match\<close> statement, as code points.\<close>

definition no_power :: pystr where
  "no_power = [1057, 1074, 1110, 1090, 1083, 1072, 32, 1085, 1077, 1084, 1072, 1108]"

definition possible_outage :: pystr where
  "possible_outage =
     [1052, 1086, 1078, 1083, 1080, 1074, 1077, 32,
      1074, 1110, 1076, 1082, 1083, 1102, 1095, 1077, 1085, 1085, 1103]"

text \<open>
  The loop \<^verbatim>\<open>for component in gcal.walk()\<close>, with the two flags and the number of clock
  readings so far. \<open>clock k\<close> is what reading number \<open>k\<close> of
  \<^verbatim>\<open>UTC.localize(datetime.now())\<close> returns; the reading is made in the body, for every
  \<^verbatim>\<open>VEVENT\<close>, before the start and the end are looked at. \<^verbatim>\<open>break\<close> ends the loop.
\<close>

fun scan ::
  "(nat \<Rightarrow> instant) \<Rightarrow> component list \<Rightarrow> bool \<Rightarrow> bool \<Rightarrow> nat \<Rightarrow> exn option \<times> bool \<times> bool \<times> nat" where
  "scan clock [] blackout possible_blackout k = (None, blackout, possible_blackout, k)"
| "scan clock (c # rest) blackout possible_blackout k =
     (if component_name c = ''VEVENT'' then
        (let now = clock k in
         case dtstart c of
           None \<Rightarrow> (Some AttributeError, blackout, possible_blackout, Suc k)
         | Some start_time \<Rightarrow>
             (case dtend c of
                None \<Rightarrow> (Some AttributeError, blackout, possible_blackout, Suc k)
              | Some end_time \<Rightarrow>
                  if now > start_time \<and> now < end_time then
                    (if summary c = Some no_power then (None, True, possible_blackout, Suc k)
                     else if summary c = Some possible_outage then scan clock rest blackout True (Suc k)
                     else scan clock rest blackout possible_blackout (Suc k))
                  else scan clock rest blackout possible_blackout (Suc k)))
      else scan clock rest blackout possible_blackout k)"

section \<open>Writing the gauges\<close>

text \<open>
  \<^verbatim>\<open>metric = self.get_metric_by_yasno_key(key); metric.set(value, group_name)\<close>: when
  the lookup returns \<^verbatim>\<open>False\<close>, \<^verbatim>\<open>False.set\<close> raises \<^verbatim>\<open>AttributeError\<close>.
\<close>

definition set_gauge :: "string \<Rightarrow> int \<Rightarrow> string \<Rightarrow> world \<Rightarrow> exn option \<times> world" where
  "set_gauge key v group_name w =
     (case get_metric_by_yasno_key key w of
        (None, w1) \<Rightarrow> (Some AttributeError, w1)
      | (Some i, w1) \<Rightarrow> (None, YasnoMetric_set i v group_name w1))"

text \<open>
  The three branches of \<^verbatim>\<open>if blackout: ... elif possible_blackout: ... else: ...\<close> make
  the same three calls in the same order and differ in the values only:
  \<open>status_values\<close> is the choice of the values, \<open>write_gauges\<close> the three calls.
\<close>

definition status_values :: "bool \<Rightarrow> bool \<Rightarrow> int \<times> int \<times> int" where
  "status_values blackout possible_blackout =
     (if blackout then (1, 0, 0)
      else if possible_blackout then (0, 1, 0)
      else (0, 0, 1))"

definition write_gauges :: "bool \<Rightarrow> bool \<Rightarrow> string \<Rightarrow> world \<Rightarrow> exn option \<times> world" where
  "write_gauges blackout possible_blackout group_name w =
     (case status_values blackout possible_blackout of
        (v1, v2, v3) \<Rightarrow>
          (case set_gauge (BLACKOUT w) v1 group_name w of
             (Some x, w1) \<Rightarrow> (Some x, w1)
           | (None, w1) \<Rightarrow>
               (case set_gauge (POSSIBLE_BLACKOUT w1) v2 group_name w1 of
                  (Some x, w2) \<Rightarrow> (Some x, w2)
                | (None, w2) \<Rightarrow> set_gauge (NO_BLACKOUT w2) v3 group_name w2)))"

section \<open>The poll cycle\<close>

text \<open>
  What the process meets outside itself during one cycle: \<^verbatim>\<open>requests.get\<close> returns a
  response or raises; \<^verbatim>\<open>Calendar.from_ical(data)\<close> followed by \<^verbatim>\<open>walk()\<close> returns the
  components or raises; the clock; the name check of the metrics library.
\<close>

record response =
  status_code :: nat
  content :: string

record env =
  requests_get :: "string \<Rightarrow> exn + response"
  from_ical :: "string \<Rightarrow> exn + component list"
  clock :: "nat \<Rightarrow> instant"
  Gauge_accepts :: "string \<Rightarrow> bool"

text \<open>The body of \<^verbatim>\<open>for id in range(1, 7)\<close>, for one \<^verbatim>\<open>group_name\<close>.\<close>

definition process_group :: "env \<Rightarrow> string \<Rightarrow> world \<Rightarrow> exn option \<times> world" where
  "process_group e group_name w =
     (case ensure_all (Gauge_accepts e) [BLACKOUT w, POSSIBLE_BLACKOUT w, NO_BLACKOUT w] w of
        (Some x, w1) \<Rightarrow> (Some x, w1)
      | (None, w1) \<Rightarrow>
          (case requests_get e (''https://tarik02.github.io/yasno-ics/kyiv/'' @ group_name @ ''.ics'') of
             Inl x \<Rightarrow> (Some x, w1)
           | Inr resp \<Rightarrow>
               (case from_ical e (content resp) of
                  Inl x \<Rightarrow> (Some x, w1)
                | Inr components \<Rightarrow>
                    (case scan (clock e) components False False (clock_reads w1) of
                       (Some x, blackout, possible_blackout, k) \<Rightarrow> (Some x, w1\<lparr>clock_reads := k\<rparr>)
                     | (None, blackout, possible_blackout, k) \<Rightarrow>
                         write_gauges blackout possible_blackout group_name
                           (w1\<lparr>clock_reads := k\<rparr>)))))"

text \<open>\<^verbatim>\<open>str(id)\<close> for the \<^verbatim>\<open>f"group_{id}"\<close> of the loop.\<close>

fun str :: "nat \<Rightarrow> string" where
  "str n =
     (if n < 10 then [char_of (48 + n)]
      else str (n div 10) @ [char_of (48 + n mod 10)])"

fun for_groups :: "env \<Rightarrow> string list \<Rightarrow> world \<Rightarrow> exn option \<times> world" where
  "for_groups e [] w = (None, w)"
| "for_groups e (group_name # rest) w =
     (case process_group e group_name w of
        (Some x, w1) \<Rightarrow> (Some x, w1)
      | (None, w1) \<Rightarrow> for_groups e rest w1)"

definition process_calendar :: "env \<Rightarrow> world \<Rightarrow> exn option \<times> world" where
  "process_calendar e w = for_groups e (map (\<lambda>id. ''group_'' @ str id) [1..<7]) w"

text \<open>
  \<^verbatim>\<open>Worker.loop\<close>: \<^verbatim>\<open>while True\<close> has no exit of its own, so the loop is run against a
  list of environments, one for each cycle, and \<open>(None, w)\<close> says that the loop is
  still running in \<open>w\<close> when the list is used up. \<^verbatim>\<open>time.sleep\<close> raises \<^verbatim>\<open>ValueError\<close> for
  a negative length. Nothing in \<^verbatim>\<open>loop\<close> or in \<^verbatim>\<open>main\<close> catches an exception of a cycle
  (\<^verbatim>\<open>main\<close> catches \<^verbatim>\<open>KeyboardInterrupt\<close> only).
\<close>

definition sleep :: "int \<Rightarrow> exn option" where
  "sleep secs = (if secs < 0 then Some ValueError else None)"

fun loop :: "env list \<Rightarrow> world \<Rightarrow> exn option \<times> world" where
  "loop [] w = (None, w)"
| "loop (e # es) w =
     (case process_calendar e w of
        (Some x, w1) \<Rightarrow> (Some x, w1)
      | (None, w1) \<Rightarrow>
          (case sleep (collecting_interval_seconds w1) of
             Some x \<Rightarrow> (Some x, w1)
           | None \<Rightarrow> loop es w1))"

section \<open>Reference definitions\<close>

text \<open>
  The name derivation as the specification words it: after every full stop has become
  an underscore, the first character is lower-cased; each later character is appended
  lower-cased, with an underscore before it exactly when it is an upper-case letter and
  the last character appended so far is not an underscore.
\<close>

definition spec_step :: "string \<Rightarrow> char \<Rightarrow> string" where
  "spec_step out c =
     (if isupper c \<and> last out \<noteq> CHR ''_'' then out @ [CHR ''_'', lower c]
      else out @ [lower c])"

definition spec_name :: "string \<Rightarrow> string" where
  "spec_name key = (let k = replace_dot key in foldl spec_step [lower (hd k)] (tl k))"

text \<open>
  The evaluation of one group as the specification words it, at a single instant: an
  event is active when the instant is strictly between its start and its end; the
  status is blackout when an active event has the "no power" summary, else possible
  blackout when an active event has the "possible outage" summary, else no blackout.
  The three values are those of the gauges, in the order blackout, possible blackout,
  no blackout. \<open>timed\<close> says that an event has both its start and its end.
\<close>

definition timed :: "component \<Rightarrow> bool" where
  "timed c = (component_name c = ''VEVENT'' \<longrightarrow> dtstart c \<noteq> None \<and> dtend c \<noteq> None)"

definition active :: "instant \<Rightarrow> component \<Rightarrow> bool" where
  "active now c =
     (component_name c = ''VEVENT'' \<and>
      (case dtstart c of None \<Rightarrow> False
       | Some start_time \<Rightarrow>
           (case dtend c of None \<Rightarrow> False
            | Some end_time \<Rightarrow> start_time < now \<and> now < end_time)))"

definition reference_status :: "instant \<Rightarrow> component list \<Rightarrow> int \<times> int \<times> int" where
  "reference_status now events =
     (if \<exists>c\<in>set events. active now c \<and> summary c = Some no_power then (1, 0, 0)
      else if \<exists>c\<in>set events. active now c \<and> summary c = Some possible_outage then (0, 1, 0)
      else (0, 0, 1))"

text \<open>Calendars and a clock for the examples.\<close>

definition event :: "pystr \<Rightarrow> instant \<Rightarrow> instant \<Rightarrow> component" where
  "event text start_time end_time =
     \<lparr>component_name = ''VEVENT'', summary = Some text,
      dtstart = Some start_time, dtend = Some end_time\<rparr>"

definition possible_then_no_power :: "component list" where
  "possible_then_no_power = [event possible_outage 0 10, event no_power 0 10]"

definition two_outages :: "component list" where
  "two_outages = [event no_power 10 20, event no_power 0 10]"

definition clock_5_15 :: "nat \<Rightarrow> instant" where
  "clock_5_15 n = (if n = 0 then 5 else 15)"

text \<open>
  What a scrape reads: the value of the gauge of a key at a label, \<open>None\<close> when the
  key has no metric or the gauge no value at the label.
\<close>

definition gauge_value :: "world \<Rightarrow> string \<Rightarrow> string \<Rightarrow> int option" where
  "gauge_value w key label =
     (case find_metric (metrics_collector w) key 0 of
        None \<Rightarrow> None
      | Some i \<Rightarrow> metric (metrics_collector w ! i) label)"

text \<open>
  The fetch of one group's calendar as \<^verbatim>\<open>process_calendar\<close> makes it: the request,
  then the parse of the body, whatever the status of the response.
\<close>

definition fetched :: "env \<Rightarrow> string \<Rightarrow> exn + component list" where
  "fetched e group_name =
     (case requests_get e (''https://tarik02.github.io/yasno-ics/kyiv/'' @ group_name @ ''.ics'') of
        Inl x \<Rightarrow> Inl x
      | Inr resp \<Rightarrow> from_ical e (content resp))"

text \<open>
  \<open>one_hot\<close>: of the three gauges at a label, one holds 1 and two hold 0.
  \<open>derivable\<close>: the three keys of the worker differ and each has a derived name, as
  the keys that \<^verbatim>\<open>Worker.__init__\<close> sets do. \<open>groups\<close> are the six group names.
  \<open>grows\<close>: the later state has the same interval and keys as the earlier one, and
  its list of metrics continues the earlier list with metrics of new, different keys.
\<close>

definition one_hot :: "world \<Rightarrow> string \<Rightarrow> bool" where
  "one_hot w group_name =
     ((gauge_value w (BLACKOUT w) group_name,
       gauge_value w (POSSIBLE_BLACKOUT w) group_name,
       gauge_value w (NO_BLACKOUT w) group_name)
      \<in> {(Some 1, Some 0, Some 0), (Some 0, Some 1, Some 0), (Some 0, Some 0, Some 1)})"

definition derivable :: "world \<Rightarrow> bool" where
  "derivable w =
     (distinct [BLACKOUT w, POSSIBLE_BLACKOUT w, NO_BLACKOUT w]
      \<and> (\<forall>key\<in>set [BLACKOUT w, POSSIBLE_BLACKOUT w, NO_BLACKOUT w].
            case convert_yasno_key_to_prometheus_name key of Inl x \<Rightarrow> False | Inr n \<Rightarrow> True))"

definition groups :: "string list" where
  "groups = [''group_1'', ''group_2'', ''group_3'', ''group_4'', ''group_5'', ''group_6'']"

definition grows :: "world \<Rightarrow> world \<Rightarrow> bool" where
  "grows w w' =
     (collecting_interval_seconds w' = collecting_interval_seconds w
      \<and> BLACKOUT w' = BLACKOUT w
      \<and> POSSIBLE_BLACKOUT w' = POSSIBLE_BLACKOUT w
      \<and> NO_BLACKOUT w' = NO_BLACKOUT w
      \<and> (\<exists>ks. map yasno_key (metrics_collector w') = map yasno_key (metrics_collector w) @ ks
            \<and> distinct ks \<and> set ks \<inter> set (map yasno_key (metrics_collector w)) = {}))"

text \<open>
  Environments and a worker for the examples: \<open>calm\<close> answers every request with an
  empty calendar and accepts every gauge name; \<open>group_1_down\<close> is \<open>calm\<close> with a
  request for the first group's calendar that raises; \<open>underivable_key\<close> is a
  worker whose third key starts with a digit.
\<close>

definition calm :: env where
  "calm =
     \<lparr>requests_get = (\<lambda>url. Inr \<lparr>status_code = 200, content = []\<rparr>),
      from_ical = (\<lambda>data. Inr []),
      clock = (\<lambda>k. 0),
      Gauge_accepts = (\<lambda>n. True)\<rparr>"

definition group_1_down :: env where
  "group_1_down =
     calm\<lparr>requests_get :=
       (\<lambda>url. if url = ''https://tarik02.github.io/yasno-ics/kyiv/group_1.ics''
              then Inl RequestException
              else Inr \<lparr>status_code = 200, content = []\<rparr>)\<rparr>"


text \<open>A record of \<^verbatim>\<open>log.error\<close>.\<close>

definition is_error_record :: "log_record \<Rightarrow> bool" where
  "is_error_record entry = (case entry of Error_raised x \<Rightarrow> True | _ \<Rightarrow> False)"

text \<open>
  The readings of a scan that starts at reading number \<open>k\<close>: every \<^verbatim>\<open>VEVENT\<close>, in
  the order of the calendar, with the reading made for it. \<open>own_reading_status\<close> is
  the evaluation in which an event is active when its own reading is strictly between
  its start and its end.
\<close>

fun stamped :: "(nat \<Rightarrow> instant) \<Rightarrow> nat \<Rightarrow> component list \<Rightarrow> (instant \<times> component) list" where
  "stamped clk k [] = []"
| "stamped clk k (c # rest) =
     (if component_name c = ''VEVENT'' then (clk k, c) # stamped clk (Suc k) rest
      else stamped clk k rest)"

definition own_reading_status :: "(instant \<times> component) list \<Rightarrow> int \<times> int \<times> int" where
  "own_reading_status readings =
     (if \<exists>r\<in>set readings. active (fst r) (snd r) \<and> summary (snd r) = Some no_power
      then (1, 0, 0)
      else if \<exists>r\<in>set readings. active (fst r) (snd r) \<and> summary (snd r) = Some possible_outage
      then (0, 1, 0)
      else (0, 0, 1))"

text \<open>Two overlapping outages and a clock that advances between the readings.\<close>

definition overlapping_outages :: "component list" where
  "overlapping_outages = [event no_power 10 20, event no_power 0 11]"

definition clock_9_12 :: "nat \<Rightarrow> instant" where
  "clock_9_12 n = (if n = 0 then 9 else 12)"

text \<open>
  A name check as a metrics library makes it when it holds the whole name to the
  pattern of metric names, \<^verbatim>\<open>[a-zA-Z_:][a-zA-Z0-9_:]*\<close> from the first character to
  the last.
\<close>

definition legacy_accepts :: "string \<Rightarrow> bool" where
  "legacy_accepts n =
     (case n of [] \<Rightarrow> False | c # cs \<Rightarrow> first_class c \<and> list_all rest_class cs)"

section \<open>Characters\<close>

lemma of_char_lower: "isupper c \<Longrightarrow> (of_char (lower c) :: nat) = of_char c + 32"
  by (auto simp add: isupper_def lower_def Let_def)

lemma isupper_lower: "\<not> isupper (lower c)"
proof (cases "isupper c")
  case True
  then have "(of_char (lower c) :: nat) = of_char c + 32" by (rule of_char_lower)
  with True show ?thesis by (auto simp add: isupper_def Let_def)
next
  case False
  then show ?thesis by (simp add: lower_def)
qed

lemma lower_not_dot: "c \<noteq> CHR ''.'' \<Longrightarrow> lower c \<noteq> CHR ''.''"
proof (cases "isupper c")
  case True
  then have "(of_char (lower c) :: nat) = of_char c + 32" by (rule of_char_lower)
  with True have "(of_char (lower c) :: nat) \<noteq> 46" by (auto simp add: isupper_def Let_def)
  then show ?thesis by auto
next
  case False
  assume "c \<noteq> CHR ''.''"
  with False show ?thesis by (simp add: lower_def)
qed

lemma lower_fixed: "\<not> isupper c \<Longrightarrow> lower c = c"
  by (simp add: lower_def)

lemma underscore_not_upper: "\<not> isupper CHR ''_''"
  by (simp add: isupper_def)

section \<open>Properties of the name derivation\<close>

lemma convert_loop_foldl: "convert_loop new cs = foldl spec_step new cs"
  by (induction cs arbitrary: new) (simp_all add: spec_step_def)

lemma replace_dot_Nil: "replace_dot key = [] \<longleftrightarrow> key = []"
  by (simp add: replace_dot_def)

lemma replace_dot_no_dot: "\<forall>c\<in>set (replace_dot key). c \<noteq> CHR ''.''"
  by (auto simp add: replace_dot_def)

lemma replace_dot_fixed: "\<forall>c\<in>set key. c \<noteq> CHR ''.'' \<Longrightarrow> replace_dot key = key"
  by (induction key) (simp_all add: replace_dot_def)

lemma convert_spec:
  "key \<noteq> [] \<Longrightarrow>
   convert_yasno_key_to_prometheus_name key =
     (if re_match (spec_name key) = None then Inl (YasnoMetricException key)
      else Inr (spec_name key))"
  by (cases "replace_dot key")
    (simp_all add: convert_yasno_key_to_prometheus_name_def spec_name_def convert_loop_foldl
      replace_dot_Nil Let_def)

lemma convert_Nil: "convert_yasno_key_to_prometheus_name [] = Inl IndexError"
  by (simp add: convert_yasno_key_to_prometheus_name_def replace_dot_def)

lemma YasnoMetric_name:
  assumes "YasnoMetric accepts key registry = Inr (m, registry')"
  shows "name m = ''yasno_'' @ spec_name key \<and> yasno_key m = key"
proof (cases "key = []")
  case True
  with assms show ?thesis by (simp add: YasnoMetric_def convert_Nil)
next
  case False
  with assms show ?thesis
    by (auto simp add: YasnoMetric_def convert_spec split: if_splits sum.splits prod.splits)
qed

text \<open>Once no character is upper-case, the loop only appends.\<close>

lemma convert_loop_append: "\<forall>c\<in>set cs. \<not> isupper c \<Longrightarrow> convert_loop new cs = new @ cs"
  by (induction cs arbitrary: new) (simp_all add: lower_fixed)

lemma convert_loop_settled:
  "\<forall>c\<in>set new. \<not> isupper c \<and> c \<noteq> CHR ''.'' \<Longrightarrow> \<forall>c\<in>set cs. c \<noteq> CHR ''.'' \<Longrightarrow>
   \<forall>c\<in>set (convert_loop new cs). \<not> isupper c \<and> c \<noteq> CHR ''.''"
proof (induction cs arbitrary: new)
  case Nil
  then show ?case by simp
next
  case (Cons a cs)
  let ?new' = "(if isupper a \<and> \<not> last new = CHR ''_'' then new @ ''_'' else new) @ [lower a]"
  have "\<forall>c\<in>set ?new'. \<not> isupper c \<and> c \<noteq> CHR ''.''"
    using Cons.prems by (auto simp add: isupper_lower lower_not_dot underscore_not_upper)
  moreover have "\<forall>c\<in>set cs. c \<noteq> CHR ''.''" using Cons.prems by simp
  ultimately have "\<forall>c\<in>set (convert_loop ?new' cs). \<not> isupper c \<and> c \<noteq> CHR ''.''"
    by (rule Cons.IH)
  then show ?case by (simp only: convert_loop.simps)
qed

lemma convert_Inr_settled:
  assumes "convert_yasno_key_to_prometheus_name key = Inr n"
  shows "n \<noteq> [] \<and> re_match n \<noteq> None \<and> (\<forall>c\<in>set n. \<not> isupper c \<and> c \<noteq> CHR ''.'')"
proof (cases "replace_dot key")
  case Nil
  with assms show ?thesis by (simp add: convert_yasno_key_to_prometheus_name_def)
next
  case (Cons k0 rest)
  with assms have n: "n = convert_loop [lower k0] rest" and m: "re_match n \<noteq> None"
    by (auto simp add: convert_yasno_key_to_prometheus_name_def Let_def split: if_splits)
  have "k0 \<noteq> CHR ''.''" and rest: "\<forall>c\<in>set rest. c \<noteq> CHR ''.''"
    using replace_dot_no_dot [of key] Cons by simp_all
  then have "\<forall>c\<in>set [lower k0]. \<not> isupper c \<and> c \<noteq> CHR ''.''"
    by (simp add: isupper_lower lower_not_dot)
  then have "\<forall>c\<in>set n. \<not> isupper c \<and> c \<noteq> CHR ''.''"
    unfolding n using rest by (rule convert_loop_settled)
  moreover from m have "n \<noteq> []" by (auto simp add: re_match_def)
  ultimately show ?thesis using m by simp
qed

lemma convert_settled:
  assumes "n \<noteq> []" and "re_match n \<noteq> None" and "\<forall>c\<in>set n. \<not> isupper c \<and> c \<noteq> CHR ''.''"
  shows "convert_yasno_key_to_prometheus_name n = Inr n"
proof -
  from assms(1) obtain n0 ns where n: "n = n0 # ns" by (cases n) auto
  have r: "replace_dot n = n0 # ns" using assms(3) n by (simp add: replace_dot_fixed)
  have "convert_loop [lower n0] ns = n"
    using assms(3) n by (simp add: convert_loop_append lower_fixed)
  then show ?thesis
    using assms(2) by (simp add: convert_yasno_key_to_prometheus_name_def r Let_def)
qed

lemma convert_pd: "convert_yasno_key_to_prometheus_name ''pd.ext4p8Port'' = Inr ''pd_ext4p8_port''"
  by code_simp

text \<open>
  C4. For a key that is not empty, the name that the derivation computes is the one the
  specification describes: full stops replaced, the first character lower-cased, an
  underscore put before an upper-case letter unless the text so far ends in one, all
  letters lower-cased. The derivation returns that name when the check of the name
  passes and raises otherwise. The two keys of the source's comments derive to
  \<^verbatim>\<open>bms_bms_status_max_cell_temp\<close> and \<^verbatim>\<open>pd_ext4p8_port\<close>, and the gauge of a
  \<^verbatim>\<open>YasnoMetric\<close> is named \<^verbatim>\<open>yasno_\<close> followed by the derived name.
\<close>

theorem derived_name_as_specified:
  "(key \<noteq> [] \<longrightarrow>
      convert_yasno_key_to_prometheus_name key =
        (if re_match (spec_name key) = None then Inl (YasnoMetricException key)
         else Inr (spec_name key)))
   \<and> (YasnoMetric accepts key registry = Inr (m, registry') \<longrightarrow>
        name m = ''yasno_'' @ spec_name key)
   \<and> convert_yasno_key_to_prometheus_name ''bms_bmsStatus.maxCellTemp''
        = Inr ''bms_bms_status_max_cell_temp''
   \<and> spec_name ''bms_bmsStatus.maxCellTemp'' = ''bms_bms_status_max_cell_temp''
   \<and> spec_name ''pd.ext4p8Port'' = ''pd_ext4p8_port''"
proof -
  have "convert_yasno_key_to_prometheus_name ''bms_bmsStatus.maxCellTemp''
          = Inr ''bms_bms_status_max_cell_temp''"
    by code_simp
  moreover have "spec_name ''bms_bmsStatus.maxCellTemp'' = ''bms_bms_status_max_cell_temp''"
    by code_simp
  moreover have "spec_name ''pd.ext4p8Port'' = ''pd_ext4p8_port''"
    by code_simp
  ultimately show ?thesis
    using convert_spec [of key] YasnoMetric_name [of accepts key registry m registry']
    by blast
qed

theorem derived_name_as_specified_witness:
  "''pd.ext4p8Port'' \<noteq> []
   \<and> convert_yasno_key_to_prometheus_name ''pd.ext4p8Port'' = Inr ''pd_ext4p8_port''
   \<and> YasnoMetric (\<lambda>n. True) ''pd.ext4p8Port'' []
        = Inr (\<lparr>yasno_key = ''pd.ext4p8Port'', name = ''yasno_pd_ext4p8_port'', metric = Map.empty\<rparr>,
               [''yasno_pd_ext4p8_port''])
   \<and> name \<lparr>yasno_key = ''pd.ext4p8Port'', name = ''yasno_pd_ext4p8_port'', metric = Map.empty\<rparr>
        = ''yasno_'' @ spec_name ''pd.ext4p8Port''"
proof -
  have y: "YasnoMetric (\<lambda>n. True) ''pd.ext4p8Port'' []
        = Inr (\<lparr>yasno_key = ''pd.ext4p8Port'', name = ''yasno_pd_ext4p8_port'', metric = Map.empty\<rparr>,
               [''yasno_pd_ext4p8_port''])"
    by (simp add: YasnoMetric_def Gauge_def convert_pd)
  have "YasnoMetric (\<lambda>n. True) ''pd.ext4p8Port'' []
        = Inr (\<lparr>yasno_key = ''pd.ext4p8Port'', name = ''yasno_pd_ext4p8_port'', metric = Map.empty\<rparr>,
               [''yasno_pd_ext4p8_port''])
      \<longrightarrow> name \<lparr>yasno_key = ''pd.ext4p8Port'', name = ''yasno_pd_ext4p8_port'', metric = Map.empty\<rparr>
        = ''yasno_'' @ spec_name ''pd.ext4p8Port''"
    using derived_name_as_specified [of "''pd.ext4p8Port''" "\<lambda>n. True" "[]"
      "\<lparr>yasno_key = ''pd.ext4p8Port'', name = ''yasno_pd_ext4p8_port'', metric = Map.empty\<rparr>"
      "[''yasno_pd_ext4p8_port'']"]
    by (elim conjE)
  with y have n: "name \<lparr>yasno_key = ''pd.ext4p8Port'', name = ''yasno_pd_ext4p8_port'', metric = Map.empty\<rparr>
        = ''yasno_'' @ spec_name ''pd.ext4p8Port''"
    by (rule rev_mp)
  have "''pd.ext4p8Port'' \<noteq> []" by simp
  with convert_pd y n show ?thesis by (intro conjI)
qed

text \<open>
  C8. The derivation is a function of the key, and a name that it returns is a fixed
  point: deriving from that name returns the same name.
\<close>

theorem derivation_idempotent:
  "convert_yasno_key_to_prometheus_name key = Inr n \<Longrightarrow>
   convert_yasno_key_to_prometheus_name n = Inr n"
  using convert_Inr_settled [of key n] convert_settled [of n] by blast

theorem derivation_idempotent_witness:
  "convert_yasno_key_to_prometheus_name ''pd.ext4p8Port'' = Inr ''pd_ext4p8_port''
   \<and> convert_yasno_key_to_prometheus_name ''pd_ext4p8_port'' = Inr ''pd_ext4p8_port''"
  using convert_pd derivation_idempotent [OF convert_pd] by simp

text \<open>
  C10. On the empty key the derivation raises \<^verbatim>\<open>IndexError\<close> at \<^verbatim>\<open>key[0]\<close>: the check
  of the name is not reached and \<^verbatim>\<open>YasnoMetricException\<close> is not raised. On every other
  key the indexing succeeds.
\<close>

theorem empty_key_index_error:
  "convert_yasno_key_to_prometheus_name [] = Inl IndexError
   \<and> (key \<noteq> [] \<longrightarrow> convert_yasno_key_to_prometheus_name key \<noteq> Inl IndexError)"
proof (cases "replace_dot key")
  case Nil
  then show ?thesis by (simp add: convert_Nil replace_dot_Nil)
next
  case (Cons k0 rest)
  then have "convert_yasno_key_to_prometheus_name key \<noteq> Inl IndexError"
    by (simp add: convert_yasno_key_to_prometheus_name_def Let_def)
  then show ?thesis by (simp add: convert_Nil)
qed

theorem empty_key_index_error_witness:
  "''blackout'' \<noteq> [] \<and> convert_yasno_key_to_prometheus_name ''blackout'' \<noteq> Inl IndexError"
  using empty_key_index_error [of "''blackout''"] by simp

section \<open>Properties of the evaluation of a calendar\<close>

lemma summaries_differ: "no_power \<noteq> possible_outage"
  by (simp add: no_power_def possible_outage_def)

lemma scan_step_other: "component_name c \<noteq> ''VEVENT'' \<Longrightarrow> scan clk (c # rest) b p k = scan clk rest b p k"
  by simp

lemma scan_step_event:
  "component_name c = ''VEVENT'' \<Longrightarrow> dtstart c = Some s \<Longrightarrow> dtend c = Some e \<Longrightarrow>
   scan clk (c # rest) b p k =
     (if s < clk k \<and> clk k < e then
        (if summary c = Some no_power then (None, True, p, Suc k)
         else if summary c = Some possible_outage then scan clk rest b True (Suc k)
         else scan clk rest b p (Suc k))
      else scan clk rest b p (Suc k))"
  by (simp add: Let_def)

lemma scan_constant:
  "\<forall>c\<in>set cs. timed c \<Longrightarrow>
   \<exists>b' p' k'. scan (\<lambda>n. now) cs b p k = (None, b', p', k')
     \<and> b' = (b \<or> (\<exists>c\<in>set cs. active now c \<and> summary c = Some no_power))
     \<and> (p \<longrightarrow> p')
     \<and> (\<not> b' \<longrightarrow> p' = (p \<or> (\<exists>c\<in>set cs. active now c \<and> summary c = Some possible_outage)))"
proof (induction cs arbitrary: p k)
  case Nil
  then show ?case by simp
next
  case (Cons c cs)
  then have wf: "\<forall>c\<in>set cs. timed c" and c: "timed c" by simp_all
  show ?case
  proof (cases "component_name c = ''VEVENT''")
    case False
    then have "\<not> active now c" by (simp add: active_def)
    with Cons.IH [OF wf, of p k] False show ?thesis
      by (simp only: scan_step_other [OF False]) auto
  next
    case True
    with c obtain s e where se: "dtstart c = Some s" "dtend c = Some e"
      by (auto simp add: timed_def)
    have act: "active now c = (s < now \<and> now < e)"
      using True se by (simp add: active_def)
    note step = scan_step_event [OF True se, of "\<lambda>n. now" cs b p k]
    consider (np) "active now c" "summary c = Some no_power"
      | (po) "active now c" "summary c = Some possible_outage"
      | (other) "active now c" "summary c \<noteq> Some no_power" "summary c \<noteq> Some possible_outage"
      | (idle) "\<not> active now c"
      by blast
    then show ?thesis
    proof cases
      case np
      then show ?thesis using step act by auto
    next
      case po
      then have s: "scan (\<lambda>n. now) (c # cs) b p k = scan (\<lambda>n. now) cs b True (Suc k)"
        using step act summaries_differ by auto
      from Cons.IH [OF wf, of True "Suc k"] po show ?thesis
        unfolding s using summaries_differ by auto
    next
      case other
      then have s: "scan (\<lambda>n. now) (c # cs) b p k = scan (\<lambda>n. now) cs b p (Suc k)"
        using step act by auto
      from Cons.IH [OF wf, of p "Suc k"] other show ?thesis
        unfolding s by auto
    next
      case idle
      then have s: "scan (\<lambda>n. now) (c # cs) b p k = scan (\<lambda>n. now) cs b p (Suc k)"
        using step act by auto
      from Cons.IH [OF wf, of p "Suc k"] idle show ?thesis
        unfolding s by auto
    qed
  qed
qed

lemma scan_reads:
  "\<exists>x b' p' k'. scan clk cs b p k = (x, b', p', k')
     \<and> k \<le> k' \<and> k' \<le> k + length (filter (\<lambda>c. component_name c = ''VEVENT'') cs)
     \<and> (x = None \<and> \<not> b' \<longrightarrow> k' = k + length (filter (\<lambda>c. component_name c = ''VEVENT'') cs))"
proof (induction cs arbitrary: p k)
  case Nil
  then show ?case by simp
next
  case (Cons c cs)
  show ?case
  proof (cases "component_name c = ''VEVENT''")
    case False
    with Cons.IH [of p k] show ?thesis
      by (simp only: scan_step_other [OF False]) auto
  next
    case True
    show ?thesis
    proof (cases "dtstart c")
      case None
      with True show ?thesis by (simp add: Let_def)
    next
      case s: (Some s)
      show ?thesis
      proof (cases "dtend c")
        case None
        with True s show ?thesis by (simp add: Let_def)
      next
        case e: (Some e)
        note step = scan_step_event [OF True s e, of clk cs b p k]
        from Cons.IH [of True "Suc k"] Cons.IH [of p "Suc k"] True show ?thesis
          unfolding step by (auto split: if_splits)
      qed
    qed
  qed
qed


lemma status_reference:
  assumes "b = (\<exists>c\<in>set cs. active now c \<and> summary c = Some no_power)"
    and "\<not> b \<longrightarrow> p = (\<exists>c\<in>set cs. active now c \<and> summary c = Some possible_outage)"
  shows "status_values b p = reference_status now cs"
  using assms by (auto simp add: status_values_def reference_status_def)

lemma scan_constant_reference:
  assumes "\<forall>c\<in>set cs. timed c"
  shows "\<exists>b p k'. scan (\<lambda>n. now) cs False False k = (None, b, p, k')
    \<and> status_values b p = reference_status now cs"
proof -
  from scan_constant [OF assms, of now False False k]
  obtain b p k' where s: "scan (\<lambda>n. now) cs False False k = (None, b, p, k')"
    and b0: "b = (False \<or> (\<exists>c\<in>set cs. active now c \<and> summary c = Some no_power))"
    and p0: "\<not> b \<longrightarrow> p = (False \<or> (\<exists>c\<in>set cs. active now c \<and> summary c = Some possible_outage))"
    by blast
  from b0 have b: "b = (\<exists>c\<in>set cs. active now c \<and> summary c = Some no_power)" by simp
  from p0 have p: "\<not> b \<longrightarrow> p = (\<exists>c\<in>set cs. active now c \<and> summary c = Some possible_outage)"
    by simp
  from b p have "status_values b p = reference_status now cs" by (rule status_reference)
  with s show ?thesis by blast
qed

lemma reference_one_hot: "reference_status now cs \<in> {(1, 0, 0), (0, 1, 0), (0, 0, 1)}"
  by (simp add: reference_status_def)

lemma reference_blackout:
  "\<exists>c\<in>set cs. active now c \<and> summary c = Some no_power \<Longrightarrow> reference_status now cs = (1, 0, 0)"
  by (simp add: reference_status_def)

lemma scan_break:
  assumes "active (clk j) c" and "summary c = Some no_power"
  shows "scan clk (c # rest) b0 p0 j = (None, True, p0, Suc j)"
proof -
  from assms(1) obtain s e where "component_name c = ''VEVENT''" "dtstart c = Some s"
    "dtend c = Some e" "s < clk j" "clk j < e"
    by (auto simp add: active_def split: option.splits)
  with assms(2) show ?thesis by (simp add: Let_def)
qed

lemma scan_stamped:
  "\<forall>c\<in>set cs. timed c \<Longrightarrow>
   \<exists>b' p' k'. scan clk cs b p k = (None, b', p', k')
     \<and> b' = (b \<or> (\<exists>r\<in>set (stamped clk k cs). active (fst r) (snd r) \<and> summary (snd r) = Some no_power))
     \<and> (p \<longrightarrow> p')
     \<and> (\<not> b' \<longrightarrow>
          p' = (p \<or> (\<exists>r\<in>set (stamped clk k cs).
                        active (fst r) (snd r) \<and> summary (snd r) = Some possible_outage)))"
proof (induction cs arbitrary: p k)
  case Nil
  then show ?case by simp
next
  case (Cons c cs)
  then have wf: "\<forall>c\<in>set cs. timed c" and c: "timed c" by simp_all
  show ?case
  proof (cases "component_name c = ''VEVENT''")
    case False
    then have st: "stamped clk k (c # cs) = stamped clk k cs" by simp
    from Cons.IH [OF wf, of p k] show ?thesis
      unfolding st by (simp only: scan_step_other [OF False])
  next
    case True
    with c obtain s e where se: "dtstart c = Some s" "dtend c = Some e"
      by (auto simp add: timed_def)
    have act: "active (clk k) c = (s < clk k \<and> clk k < e)"
      using True se by (simp add: active_def)
    have st: "stamped clk k (c # cs) = (clk k, c) # stamped clk (Suc k) cs"
      using True by simp
    note step = scan_step_event [OF True se, of clk cs b p k]
    consider (np) "active (clk k) c" "summary c = Some no_power"
      | (po) "active (clk k) c" "summary c = Some possible_outage"
      | (other) "active (clk k) c" "summary c \<noteq> Some no_power" "summary c \<noteq> Some possible_outage"
      | (idle) "\<not> active (clk k) c"
      by blast
    then show ?thesis
    proof cases
      case np
      then show ?thesis unfolding st using step act by auto
    next
      case po
      then have s: "scan clk (c # cs) b p k = scan clk cs b True (Suc k)"
        using step act summaries_differ by auto
      from Cons.IH [OF wf, of True "Suc k"] po show ?thesis
        unfolding s st using summaries_differ by auto
    next
      case other
      then have s: "scan clk (c # cs) b p k = scan clk cs b p (Suc k)"
        using step act by auto
      from Cons.IH [OF wf, of p "Suc k"] other show ?thesis
        unfolding s st by auto
    next
      case idle
      then have s: "scan clk (c # cs) b p k = scan clk cs b p (Suc k)"
        using step act by auto
      from Cons.IH [OF wf, of p "Suc k"] idle show ?thesis
        unfolding s st by auto
    qed
  qed
qed

lemma scan_own_reading:
  assumes "\<forall>c\<in>set cs. timed c"
  shows "\<exists>b p k'. scan clk cs False False k = (None, b, p, k')
    \<and> status_values b p = own_reading_status (stamped clk k cs)"
proof -
  from scan_stamped [OF assms, of clk False False k]
  obtain b p k' where s: "scan clk cs False False k = (None, b, p, k')"
    and b0: "b = (False \<or> (\<exists>r\<in>set (stamped clk k cs). active (fst r) (snd r) \<and> summary (snd r) = Some no_power))"
    and p0: "\<not> b \<longrightarrow> p = (False \<or> (\<exists>r\<in>set (stamped clk k cs).
                        active (fst r) (snd r) \<and> summary (snd r) = Some possible_outage))"
    by blast
  have "status_values b p = own_reading_status (stamped clk k cs)"
    using b0 p0 by (auto simp add: status_values_def own_reading_status_def)
  with s show ?thesis by blast
qed

lemma own_reading_one_hot: "own_reading_status readings \<in> {(1, 0, 0), (0, 1, 0), (0, 0, 1)}"
  by (simp add: own_reading_status_def)

lemma own_reading_blackout:
  "\<exists>r\<in>set readings. active (fst r) (snd r) \<and> summary (snd r) = Some no_power \<Longrightarrow>
   own_reading_status readings = (1, 0, 0)"
  by (simp add: own_reading_status_def)

lemma reference_status_set: "set cs' = set cs \<Longrightarrow> reference_status now cs' = reference_status now cs"
  by (simp add: reference_status_def)

text \<open>
  C2. The clock is read for every event, so there is no single instant of a scan. With
  two "no power" events, one from 10 to 20 and one from 0 to 11, and a clock that reads
  9 and then 12, an event with that summary covers each of the two instants, and yet
  the scan finds no event active and the values are 0, 0, 1; with the two events in the
  other order the same clock gives 1, 0, 0.
\<close>

theorem blackout_order_counterexample:
  "scan clock_9_12 overlapping_outages False False 0 = (None, False, False, 2)
   \<and> status_values False False = (0, 0, 1)
   \<and> reference_status 9 overlapping_outages = (1, 0, 0)
   \<and> reference_status 12 overlapping_outages = (1, 0, 0)
   \<and> scan clock_9_12 (rev overlapping_outages) False False 0 = (None, True, False, 1)
   \<and> status_values True False = (1, 0, 0)"
  by (simp add: overlapping_outages_def event_def clock_9_12_def status_values_def
      reference_status_def active_def numeral_2_eq_2)

text \<open>
  C2, as amended. For every calendar whose events have a start and an end, and every
  clock, the scan ends normally and the three values chosen from its flags are those of
  the evaluation of each event at its own reading: exactly one of them is 1, blackout
  before possible blackout before no blackout, and 1, 0, 0 when some event with the
  "no power" summary is active at its reading. When every reading is the same instant,
  the values are those of the single-instant evaluation, which depends on the set of
  the events and not on their order: 1, 0, 0 when some event active at the instant has
  the "no power" summary. Whatever the flags, exactly one of the values is 1; a
  "possible outage" seen before does not change a blackout, and the scan stops at the
  active "no power" event.
\<close>

theorem blackout_precedence:
  assumes "\<forall>c\<in>set cs. timed c"
  shows "(\<exists>b p k'. scan clk cs False False k = (None, b, p, k')
            \<and> status_values b p = own_reading_status (stamped clk k cs))
    \<and> own_reading_status (stamped clk k cs) \<in> {(1, 0, 0), (0, 1, 0), (0, 0, 1)}
    \<and> ((\<exists>r\<in>set (stamped clk k cs). active (fst r) (snd r) \<and> summary (snd r) = Some no_power) \<longrightarrow>
          own_reading_status (stamped clk k cs) = (1, 0, 0))
    \<and> (\<exists>b p k'. scan (\<lambda>n. now) cs False False k = (None, b, p, k')
            \<and> status_values b p = reference_status now cs
            \<and> ((\<exists>c\<in>set cs. active now c \<and> summary c = Some no_power) \<longrightarrow>
                  status_values b p = (1, 0, 0)))
    \<and> reference_status now cs \<in> {(1, 0, 0), (0, 1, 0), (0, 0, 1)}
    \<and> (set cs' = set cs \<longrightarrow> reference_status now cs' = reference_status now cs)
    \<and> status_values True possible_before = (1, 0, 0)
    \<and> status_values b1 p1 \<in> {(1, 0, 0), (0, 1, 0), (0, 0, 1)}
    \<and> (active (clk j) c0 \<and> summary c0 = Some no_power \<longrightarrow>
          scan clk (c0 # rest) b0 p0 j = (None, True, p0, Suc j))"
proof -
  from scan_constant_reference [OF assms, of now k]
  obtain b p k' where s: "scan (\<lambda>n. now) cs False False k = (None, b, p, k')"
    and r: "status_values b p = reference_status now cs"
    by blast
  have "(\<exists>c\<in>set cs. active now c \<and> summary c = Some no_power) \<longrightarrow>
          status_values b p = (1, 0, 0)"
    using r reference_blackout [of cs now] by simp
  with s r have same_instant: "\<exists>b p k'. scan (\<lambda>n. now) cs False False k = (None, b, p, k')
            \<and> status_values b p = reference_status now cs
            \<and> ((\<exists>c\<in>set cs. active now c \<and> summary c = Some no_power) \<longrightarrow>
                  status_values b p = (1, 0, 0))"
    by blast
  have own: "(\<exists>r\<in>set (stamped clk k cs). active (fst r) (snd r) \<and> summary (snd r) = Some no_power) \<longrightarrow>
          own_reading_status (stamped clk k cs) = (1, 0, 0)"
    using own_reading_blackout [of "stamped clk k cs"] by blast
  have order: "set cs' = set cs \<longrightarrow> reference_status now cs' = reference_status now cs"
    using reference_status_set [of cs' cs now] by blast
  have first: "status_values True possible_before = (1, 0, 0)"
    by (simp add: status_values_def)
  have stop: "active (clk j) c0 \<and> summary c0 = Some no_power \<longrightarrow>
          scan clk (c0 # rest) b0 p0 j = (None, True, p0, Suc j)"
    using scan_break [of clk j c0 rest b0 p0] by blast
  have any: "status_values b1 p1 \<in> {(1, 0, 0), (0, 1, 0), (0, 0, 1)}"
    by (simp add: status_values_def)
  from scan_own_reading [OF assms, of clk k] own_reading_one_hot [of "stamped clk k cs"] own
    same_instant reference_one_hot [of now cs] order first any stop
  show ?thesis by (intro conjI)
qed

lemma possible_then_no_power_timed: "\<forall>c\<in>set possible_then_no_power. timed c"
  by (simp add: possible_then_no_power_def event_def timed_def)

lemma possible_then_no_power_scan:
  "scan (\<lambda>n. 5) possible_then_no_power False False 0 = (None, True, True, 2)"
  by (simp add: possible_then_no_power_def event_def summaries_differ summaries_differ [symmetric]
      numeral_2_eq_2)

theorem blackout_precedence_witness:
  "list_all timed possible_then_no_power
   \<and> scan (\<lambda>n. 5) possible_then_no_power False False 0 = (None, True, True, 2)
   \<and> status_values True True = (1, 0, 0)
   \<and> reference_status 5 possible_then_no_power = (1, 0, 0)"
proof -
  from blackout_precedence [OF possible_then_no_power_timed, where now = 5 and k = 0]
  have "\<exists>b p k'. scan (\<lambda>n. 5) possible_then_no_power False False 0 = (None, b, p, k')
            \<and> status_values b p = reference_status 5 possible_then_no_power"
    by blast
  then have "status_values True True = reference_status 5 possible_then_no_power"
    unfolding possible_then_no_power_scan by blast
  moreover have "status_values True True = (1, 0, 0)" by (simp add: status_values_def)
  ultimately show ?thesis
    using possible_then_no_power_timed possible_then_no_power_scan by (simp add: list_all_iff)
qed

text \<open>
  C9. The clock is read in the body of the loop, once for every \<^verbatim>\<open>VEVENT\<close>, and each
  event is tested against its own reading. With two "no power" events, one from 10 to
  20 and one from 0 to 10, and a clock that reads 5 and then 15, the scan reads the
  clock twice and finds no event active, while at each of the two instants the
  single-instant evaluation reports a blackout.
\<close>

theorem clock_read_once_counterexample:
  "scan clock_5_15 two_outages False False 0 = (None, False, False, 2)
   \<and> status_values False False = (0, 0, 1)
   \<and> reference_status 5 two_outages = (1, 0, 0)
   \<and> reference_status 15 two_outages = (1, 0, 0)"
  by (simp add: two_outages_def event_def clock_5_15_def status_values_def reference_status_def
      active_def numeral_2_eq_2)

text \<open>
  C9, as amended. The scan reads the clock at most once for every \<^verbatim>\<open>VEVENT\<close> of the
  calendar, and exactly once for each when it ends normally without a "no power"
  match. An event is tested, strictly between its start and its end, against the
  reading made for it, and the scan goes on with the next reading. When every reading
  is the same instant and the events have a start and an end, the values chosen are
  those of the single-instant evaluation at that instant.
\<close>

theorem clock_read_per_event:
  "(\<exists>x b p k'. scan clk cs False False k = (x, b, p, k')
      \<and> k \<le> k' \<and> k' \<le> k + length (filter (\<lambda>c. component_name c = ''VEVENT'') cs)
      \<and> (x = None \<and> \<not> b \<longrightarrow> k' = k + length (filter (\<lambda>c. component_name c = ''VEVENT'') cs)))
   \<and> (component_name c = ''VEVENT'' \<and> dtstart c = Some s \<and> dtend c = Some e \<longrightarrow>
        scan clk (c # rest) b0 p0 j =
          (if s < clk j \<and> clk j < e then
             (if summary c = Some no_power then (None, True, p0, Suc j)
              else if summary c = Some possible_outage then scan clk rest b0 True (Suc j)
              else scan clk rest b0 p0 (Suc j))
           else scan clk rest b0 p0 (Suc j)))
   \<and> ((\<forall>c\<in>set cs. timed c) \<longrightarrow>
        (\<exists>b p k'. scan (\<lambda>n. now) cs False False k = (None, b, p, k')
           \<and> status_values b p = reference_status now cs))"
  using scan_reads [of clk cs False False k] scan_constant_reference [of cs now k]
    scan_step_event [of c s e clk rest b0 p0 j]
  by blast

lemma two_outages_timed: "\<forall>c\<in>set two_outages. timed c"
  by (simp add: two_outages_def event_def timed_def)

lemma two_outages_scan: "scan (\<lambda>n. 5) two_outages False False 0 = (None, True, False, 2)"
  by (simp add: two_outages_def event_def numeral_2_eq_2)

theorem clock_read_per_event_witness:
  "list_all timed two_outages
   \<and> scan (\<lambda>n. 5) two_outages False False 0 = (None, True, False, 2)
   \<and> status_values True False = reference_status 5 two_outages"
proof -
  from clock_read_per_event [where clk = "\<lambda>n. 5" and cs = two_outages and k = 0 and now = 5]
    two_outages_timed
  have "\<exists>b p k'. scan (\<lambda>n. 5) two_outages False False 0 = (None, b, p, k')
           \<and> status_values b p = reference_status 5 two_outages"
    by blast
  then have "status_values True False = reference_status 5 two_outages"
    unfolding two_outages_scan by blast
  then show ?thesis using two_outages_timed two_outages_scan by (simp add: list_all_iff)
qed


section \<open>Lookup and creation of metrics\<close>

lemma find_metric_keys:
  "map yasno_key ms = map yasno_key ms' \<Longrightarrow> find_metric ms key i = find_metric ms' key i"
proof (induction ms arbitrary: ms' i)
  case Nil
  then show ?case by simp
next
  case (Cons m ms)
  then obtain m' ms'' where "ms' = m' # ms''" by (cases ms') auto
  with Cons show ?case by auto
qed

lemma find_metric_Some:
  "find_metric ms key i = Some j \<Longrightarrow> i \<le> j \<and> j - i < length ms \<and> yasno_key (ms ! (j - i)) = key"
proof (induction ms arbitrary: i)
  case Nil
  then show ?case by simp
next
  case (Cons m ms)
  show ?case
  proof (cases "yasno_key m = key")
    case True
    with Cons.prems show ?thesis by simp
  next
    case False
    with Cons.prems have "find_metric ms key (Suc i) = Some j" by simp
    from Cons.IH [OF this] have "Suc i \<le> j" "j - Suc i < length ms"
      "yasno_key (ms ! (j - Suc i)) = key" by simp_all
    moreover from \<open>Suc i \<le> j\<close> have "j - i = Suc (j - Suc i)" by simp
    ultimately show ?thesis by simp
  qed
qed

lemma find_metric_None: "find_metric ms key i = None \<longleftrightarrow> key \<notin> set (map yasno_key ms)"
  by (induction ms arbitrary: i) auto

lemma find_metric_append:
  "find_metric (ms @ ms') key i =
     (case find_metric ms key i of
        Some j \<Rightarrow> Some j
      | None \<Rightarrow> find_metric ms' key (i + length ms))"
  by (induction ms arbitrary: i) (auto split: option.splits)

lemma gauge_value_fields:
  "metrics_collector w' = metrics_collector w \<Longrightarrow> gauge_value w' k l = gauge_value w k l"
  unfolding gauge_value_def by (erule ssubst) (rule refl)

lemma gauge_value_append_empty:
  assumes "metrics_collector w' = metrics_collector w @ [m]" and "metric m = Map.empty"
  shows "gauge_value w' k l = gauge_value w k l"
proof (cases "find_metric (metrics_collector w) k 0")
  case None
  then show ?thesis
    using assms by (simp add: gauge_value_def find_metric_append)
next
  case (Some j)
  from find_metric_Some [OF Some] have "j < length (metrics_collector w)" by simp
  with Some show ?thesis
    using assms by (simp add: gauge_value_def find_metric_append nth_append)
qed


lemma YasnoMetric_Inr:
  "YasnoMetric accepts key registry = Inr (m, registry') \<Longrightarrow>
   yasno_key m = key \<and> metric m = Map.empty \<and> registry' = registry @ [name m]
   \<and> name m \<notin> set registry \<and> accepts (name m)
   \<and> convert_yasno_key_to_prometheus_name key = Inr (drop 6 (name m))"
  by (auto simp add: YasnoMetric_def Gauge_def split: sum.splits if_splits)

lemma YasnoMetric_Inl:
  "YasnoMetric accepts key registry = Inl e \<Longrightarrow>
   convert_yasno_key_to_prometheus_name key = Inl e
   \<or> (e = ValueError \<and> (\<exists>n. convert_yasno_key_to_prometheus_name key = Inr n))"
  by (auto simp add: YasnoMetric_def Gauge_def split: sum.splits if_splits)

text \<open>The four ways through the body of the loop over the keys.\<close>

lemma ensure_found:
  "find_metric (metrics_collector w) key 0 = Some i \<Longrightarrow>
   ensure accepts key w =
     (Inr (Some i), w\<lparr>logged := logged w @ [Debug_found (name (metrics_collector w ! i)) key]\<rparr>)"
  by (simp add: ensure_def get_metric_by_yasno_key_def)

lemma ensure_created:
  "find_metric (metrics_collector w) key 0 = None \<Longrightarrow>
   YasnoMetric accepts key (REGISTRY w) = Inr (m, registry') \<Longrightarrow>
   ensure accepts key w =
     (Inr (Some (length (metrics_collector w))),
      w\<lparr>logged := logged w @ [Debug_cannot_find key],
        REGISTRY := registry',
        logged := logged w @ [Debug_cannot_find key, Info_created (yasno_key m) (name m)],
        metrics_collector := metrics_collector w @ [m]\<rparr>)"
  by (simp add: ensure_def get_metric_by_yasno_key_def)

lemma ensure_skipped:
  "find_metric (metrics_collector w) key 0 = None \<Longrightarrow>
   YasnoMetric accepts key (REGISTRY w) = Inl (YasnoMetricException k) \<Longrightarrow>
   ensure accepts key w =
     (Inr None,
      w\<lparr>logged := logged w @ [Debug_cannot_find key, Error_raised (YasnoMetricException k)]\<rparr>)"
  by (simp add: ensure_def get_metric_by_yasno_key_def)

lemma ensure_raised:
  "find_metric (metrics_collector w) key 0 = None \<Longrightarrow>
   YasnoMetric accepts key (REGISTRY w) = Inl e \<Longrightarrow> \<forall>k. e \<noteq> YasnoMetricException k \<Longrightarrow>
   ensure accepts key w = (Inl e, w\<lparr>logged := logged w @ [Debug_cannot_find key]\<rparr>)"
  by (cases e) (simp_all add: ensure_def get_metric_by_yasno_key_def)


lemma grows_refl: "grows w w"
  by (simp add: grows_def)

lemma grows_trans:
  assumes "grows w w1" and "grows w1 w2"
  shows "grows w w2"
proof -
  from assms(1) obtain ks where ks: "map yasno_key (metrics_collector w1) = map yasno_key (metrics_collector w) @ ks"
    "distinct ks" "set ks \<inter> set (map yasno_key (metrics_collector w)) = {}"
    unfolding grows_def by blast
  from assms(2) obtain ks' where ks': "map yasno_key (metrics_collector w2) = map yasno_key (metrics_collector w1) @ ks'"
    "distinct ks'" "set ks' \<inter> set (map yasno_key (metrics_collector w1)) = {}"
    unfolding grows_def by blast
  have "map yasno_key (metrics_collector w2) = map yasno_key (metrics_collector w) @ (ks @ ks')"
    using ks(1) ks'(1) by simp
  moreover have "distinct (ks @ ks')"
    using ks(2) ks'(2) ks'(3) unfolding ks(1) by auto
  moreover have "set (ks @ ks') \<inter> set (map yasno_key (metrics_collector w)) = {}"
    using ks(3) ks'(3) unfolding ks(1) by auto
  ultimately have "\<exists>ks. map yasno_key (metrics_collector w2) = map yasno_key (metrics_collector w) @ ks
            \<and> distinct ks \<and> set ks \<inter> set (map yasno_key (metrics_collector w)) = {}"
    by blast
  then show ?thesis using assms unfolding grows_def by simp
qed

lemma gauge_value_logged [simp]: "gauge_value (w\<lparr>logged := entries\<rparr>) k l = gauge_value w k l"
  by (rule gauge_value_fields) simp

lemma gauge_value_clock_reads [simp]: "gauge_value (w\<lparr>clock_reads := n\<rparr>) k l = gauge_value w k l"
  by (rule gauge_value_fields) simp

lemma grows_logged: "grows w (w\<lparr>logged := entries\<rparr>)"
  by (simp add: grows_def)

lemma grows_clock_reads: "grows w (w\<lparr>clock_reads := k\<rparr>)"
  by (simp add: grows_def)

lemma grows_find:
  assumes "grows w w'" and "find_metric (metrics_collector w) key 0 = Some i"
  shows "find_metric (metrics_collector w') key 0 = Some i"
proof -
  from assms(1) obtain ks where ks: "map yasno_key (metrics_collector w') = map yasno_key (metrics_collector w) @ ks"
    unfolding grows_def by blast
  let ?n = "length (metrics_collector w)"
  have "map yasno_key (take ?n (metrics_collector w')) = take ?n (map yasno_key (metrics_collector w'))"
    by (rule take_map [symmetric])
  also have "\<dots> = map yasno_key (metrics_collector w)" unfolding ks by simp
  finally have "find_metric (take ?n (metrics_collector w')) key 0 = find_metric (metrics_collector w) key 0"
    by (rule find_metric_keys)
  with assms(2) have "find_metric (take ?n (metrics_collector w') @ drop ?n (metrics_collector w')) key 0 = Some i"
    unfolding find_metric_append by simp
  then show ?thesis by simp
qed


lemma ensure_effect:
  assumes "ensure accepts key w = (r, w')"
  shows "grows w w'" (is ?g)
    and "gauge_value w' k l = gauge_value w k l" (is ?v)
    and "REGISTRY w' = REGISTRY w \<or> metrics_collector w' \<noteq> metrics_collector w" (is ?reg)
    and "clock_reads w' = clock_reads w" (is ?c)
    and "r = Inr (Some i) \<longrightarrow> find_metric (metrics_collector w') key 0 = Some i" (is ?f)
    and "r = Inr None \<longrightarrow> (\<exists>k. convert_yasno_key_to_prometheus_name key = Inl (YasnoMetricException k))" (is ?n)
proof -
  have "?g \<and> ?v \<and> ?reg \<and> ?c \<and> ?f \<and> ?n"
  proof (cases "find_metric (metrics_collector w) key 0")
    case (Some j)
    from assms ensure_found [OF Some, of accepts] have r: "r = Inr (Some j)"
      and w': "w' = w\<lparr>logged := logged w @ [Debug_found (name (metrics_collector w ! j)) key]\<rparr>"
      by simp_all
    show ?thesis using Some unfolding r w' by (simp add: grows_logged)
  next
    case None
    show ?thesis
    proof (cases "YasnoMetric accepts key (REGISTRY w)")
      case (Inr pair)
      obtain m registry' where pair: "pair = (m, registry')" by (cases pair)
      note y = Inr [unfolded pair]
      from YasnoMetric_Inr [OF y] have m: "yasno_key m = key" "metric m = Map.empty" by simp_all
      from assms ensure_created [OF None y] have r: "r = Inr (Some (length (metrics_collector w)))"
        and w': "w' = w\<lparr>logged := logged w @ [Debug_cannot_find key],
          REGISTRY := registry',
          logged := logged w @ [Debug_cannot_find key, Info_created (yasno_key m) (name m)],
          metrics_collector := metrics_collector w @ [m]\<rparr>"
        by simp_all
      have mc: "metrics_collector w' = metrics_collector w @ [m]" unfolding w' by simp
      have g: ?g
        using None m unfolding grows_def w' by (simp add: find_metric_None)
      have v: ?v using mc m(2) by (rule gauge_value_append_empty)
      have f: "find_metric (metrics_collector w') key 0 = Some (length (metrics_collector w))"
        using None m(1) unfolding mc by (simp add: find_metric_append)
      show ?thesis using g v f r mc unfolding w' by simp
    next
      case (Inl e)
      show ?thesis
      proof (cases "\<exists>k. e = YasnoMetricException k")
        case True
        then obtain k0 where e: "e = YasnoMetricException k0" by blast
        from assms ensure_skipped [OF None Inl [unfolded e]] have r: "r = Inr None"
          and w': "w' = w\<lparr>logged := logged w @ [Debug_cannot_find key, Error_raised (YasnoMetricException k0)]\<rparr>"
          by simp_all
        from YasnoMetric_Inl [OF Inl] e
        have "convert_yasno_key_to_prometheus_name key = Inl (YasnoMetricException k0)" by auto
        then show ?thesis unfolding r w' by (simp add: grows_logged)
      next
        case False
        then have "\<forall>k. e \<noteq> YasnoMetricException k" by blast
        from assms ensure_raised [OF None Inl this] have r: "r = Inl e"
          and w': "w' = w\<lparr>logged := logged w @ [Debug_cannot_find key]\<rparr>"
          by simp_all
        show ?thesis unfolding r w' by (simp add: grows_logged)
      qed
    qed
  qed
  then show ?g and ?v and ?reg and ?c and ?f and ?n by blast+
qed


lemma ensure_all_effect:
  "ensure_all accepts keys w = (x, w') \<Longrightarrow>
   grows w w' \<and> gauge_value w' k l = gauge_value w k l \<and> clock_reads w' = clock_reads w
   \<and> (x = None \<longrightarrow>
        (\<forall>key\<in>set keys. (\<exists>n. convert_yasno_key_to_prometheus_name key = Inr n) \<longrightarrow>
           find_metric (metrics_collector w') key 0 \<noteq> None))"
proof (induction keys arbitrary: w)
  case Nil
  then show ?case by (simp add: grows_refl)
next
  case (Cons key keys)
  obtain r w1 where e: "ensure accepts key w = (r, w1)" by (cases "ensure accepts key w")
  note eff = ensure_effect [OF e]
  show ?case
  proof (cases r)
    case (Inl exn)
    with Cons.prems e have "x = Some exn" "w' = w1" by simp_all
    with eff(1) eff(2) [of k l] eff(4) show ?thesis by simp
  next
    case (Inr found)
    with Cons.prems e have rest: "ensure_all accepts keys w1 = (x, w')" by simp
    note ih = Cons.IH [OF rest]
    from ih eff(1) have g: "grows w w'" by (blast intro: grows_trans)
    have v: "gauge_value w' k l = gauge_value w k l" using ih eff(2) [of k l] by simp
    have c: "clock_reads w' = clock_reads w" using ih eff(4) by simp
    have "find_metric (metrics_collector w') key 0 \<noteq> None"
      if "\<exists>n. convert_yasno_key_to_prometheus_name key = Inr n"
    proof -
      from that eff(6) Inr obtain i where "found = Some i" by (cases found) auto
      with eff(5) [of i] Inr have "find_metric (metrics_collector w1) key 0 = Some i" by simp
      with ih have "find_metric (metrics_collector w') key 0 = Some i" by (blast intro: grows_find)
      then show ?thesis by simp
    qed
    with ih g v c show ?thesis by simp
  qed
qed

lemma set_gauge_effect:
  assumes "set_gauge key v g w = (x, w')"
  shows "grows w w'"
    and "gauge_value w' k l = (if x = None \<and> k = key \<and> l = g then Some v else gauge_value w k l)"
    and "x = None \<longleftrightarrow> find_metric (metrics_collector w) key 0 \<noteq> None"
    and "x \<noteq> None \<longrightarrow> x = Some AttributeError"
    and "find_metric (metrics_collector w') k 0 = find_metric (metrics_collector w) k 0"
    and "clock_reads w' = clock_reads w"
proof -
  have "grows w w'
    \<and> gauge_value w' k l = (if x = None \<and> k = key \<and> l = g then Some v else gauge_value w k l)
    \<and> (x = None \<longleftrightarrow> find_metric (metrics_collector w) key 0 \<noteq> None)
    \<and> (x \<noteq> None \<longrightarrow> x = Some AttributeError)
    \<and> find_metric (metrics_collector w') k 0 = find_metric (metrics_collector w) k 0
    \<and> clock_reads w' = clock_reads w"
  proof (cases "find_metric (metrics_collector w) key 0")
    case None
    with assms have "x = Some AttributeError" "w' = w\<lparr>logged := logged w @ [Debug_cannot_find key]\<rparr>"
      by (simp_all add: set_gauge_def get_metric_by_yasno_key_def)
    with None show ?thesis by (simp add: grows_logged)
  next
    case (Some i)
    let ?ms = "metrics_collector w"
    let ?m = "?ms ! i"
    let ?ms' = "?ms[i := ?m\<lparr>metric := (metric ?m)(g \<mapsto> v)\<rparr>]"
    from find_metric_Some [OF Some] have i: "i < length ?ms" "yasno_key ?m = key" by simp_all
    from assms Some have x: "x = None" and mc: "metrics_collector w' = ?ms'"
      and fields: "collecting_interval_seconds w' = collecting_interval_seconds w"
        "BLACKOUT w' = BLACKOUT w" "POSSIBLE_BLACKOUT w' = POSSIBLE_BLACKOUT w"
        "NO_BLACKOUT w' = NO_BLACKOUT w" "clock_reads w' = clock_reads w"
      by (auto simp add: set_gauge_def get_metric_by_yasno_key_def YasnoMetric_set_def Let_def)
    have keys: "map yasno_key ?ms' = map yasno_key ?ms"
      using i by (simp add: map_update list_update_same_conv)
    then have f: "find_metric ?ms' k 0 = find_metric ?ms k 0" by (rule find_metric_keys)
    have g: "grows w w'" unfolding grows_def using fields keys mc by simp
    have val: "gauge_value w' k l = (if k = key \<and> l = g then Some v else gauge_value w k l)"
    proof (cases "find_metric ?ms k 0")
      case None
      then have "k \<noteq> key" using Some by auto
      with None f show ?thesis by (simp add: gauge_value_def mc)
    next
      case j: (Some j)
      from find_metric_Some [OF j] have jl: "j < length ?ms" "yasno_key (?ms ! j) = k" by simp_all
      show ?thesis
      proof (cases "k = key")
        case True
        with j Some have "j = i" by simp
        with j f i show ?thesis by (simp add: gauge_value_def mc True)
      next
        case False
        with jl i have "j \<noteq> i" by auto
        with j f False show ?thesis by (simp add: gauge_value_def mc)
      qed
    qed
    show ?thesis using g val x Some f fields mc by simp
  qed
  then show "grows w w'"
    and "gauge_value w' k l = (if x = None \<and> k = key \<and> l = g then Some v else gauge_value w k l)"
    and "x = None \<longleftrightarrow> find_metric (metrics_collector w) key 0 \<noteq> None"
    and "x \<noteq> None \<longrightarrow> x = Some AttributeError"
    and "find_metric (metrics_collector w') k 0 = find_metric (metrics_collector w) k 0"
    and "clock_reads w' = clock_reads w"
    by blast+
qed


section \<open>Effects of a cycle\<close>

lemma status_values_one_hot:
  "status_values b p \<in> {(1, 0, 0), (0, 1, 0), (0, 0, 1)}"
  by (simp add: status_values_def)

lemma write_gauges_effect:
  assumes "write_gauges b p g w = (x, w')"
  shows "grows w w'"
    and "l \<noteq> g \<longrightarrow> gauge_value w' k l = gauge_value w k l"
    and "clock_reads w' = clock_reads w"
    and "find_metric (metrics_collector w) (BLACKOUT w) 0 \<noteq> None
         \<and> find_metric (metrics_collector w) (POSSIBLE_BLACKOUT w) 0 \<noteq> None
         \<and> find_metric (metrics_collector w) (NO_BLACKOUT w) 0 \<noteq> None \<longrightarrow> x = None"
    and "x = None \<and> distinct [BLACKOUT w, POSSIBLE_BLACKOUT w, NO_BLACKOUT w] \<longrightarrow>
         (Some (fst (status_values b p)), Some (fst (snd (status_values b p))),
          Some (snd (snd (status_values b p))))
         = (gauge_value w' (BLACKOUT w) g, gauge_value w' (POSSIBLE_BLACKOUT w) g,
            gauge_value w' (NO_BLACKOUT w) g)"
proof -
  obtain v1 v2 v3 where sv: "status_values b p = (v1, v2, v3)"
    by (cases "status_values b p") auto
  obtain x1 w1 where s1: "set_gauge (BLACKOUT w) v1 g w = (x1, w1)"
    by (cases "set_gauge (BLACKOUT w) v1 g w")
  obtain x2 w2 where s2: "set_gauge (POSSIBLE_BLACKOUT w1) v2 g w1 = (x2, w2)"
    by (cases "set_gauge (POSSIBLE_BLACKOUT w1) v2 g w1")
  obtain x3 w3 where s3: "set_gauge (NO_BLACKOUT w2) v3 g w2 = (x3, w3)"
    by (cases "set_gauge (NO_BLACKOUT w2) v3 g w2")
  note e1 = set_gauge_effect [OF s1] and e2 = set_gauge_effect [OF s2]
    and e3 = set_gauge_effect [OF s3]
  have k1: "POSSIBLE_BLACKOUT w1 = POSSIBLE_BLACKOUT w" "NO_BLACKOUT w1 = NO_BLACKOUT w"
    using e1(1) by (simp_all add: grows_def)
  have k2: "NO_BLACKOUT w2 = NO_BLACKOUT w"
    using e2(1) k1 by (simp add: grows_def)
  have res: "(x, w') = (if x1 \<noteq> None then (x1, w1) else if x2 \<noteq> None then (x2, w2) else (x3, w3))"
    using assms sv s1 s2 s3 by (auto simp add: write_gauges_def split: option.splits)
  have g02: "grows w w2" using e1(1) e2(1) by (rule grows_trans)
  have g03: "grows w w3" using g02 e3(1) by (rule grows_trans)
  have "grows w w'
    \<and> (l \<noteq> g \<longrightarrow> gauge_value w' k l = gauge_value w k l)
    \<and> clock_reads w' = clock_reads w
    \<and> (find_metric (metrics_collector w) (BLACKOUT w) 0 \<noteq> None
         \<and> find_metric (metrics_collector w) (POSSIBLE_BLACKOUT w) 0 \<noteq> None
         \<and> find_metric (metrics_collector w) (NO_BLACKOUT w) 0 \<noteq> None \<longrightarrow> x = None)
    \<and> (x = None \<and> distinct [BLACKOUT w, POSSIBLE_BLACKOUT w, NO_BLACKOUT w] \<longrightarrow>
         (Some v1, Some v2, Some v3)
         = (gauge_value w' (BLACKOUT w) g, gauge_value w' (POSSIBLE_BLACKOUT w) g,
            gauge_value w' (NO_BLACKOUT w) g))"
  proof (cases "x1 = None")
    case False
    with res have r: "x = x1" "w' = w1" by simp_all
    show ?thesis unfolding r using False e1(1) e1(2) [of k l] e1(3) e1(6) by auto
  next
    case x1: True
    show ?thesis
    proof (cases "x2 = None")
      case False
      with res x1 have r: "x = x2" "w' = w2" by simp_all
      show ?thesis unfolding r
        using False g02 e1(2) [of k l] e2(2) [of k l] e2(3) e1(5) [of "POSSIBLE_BLACKOUT w"]
          e1(6) e2(6) k1
        by auto
    next
      case x2: True
      with res x1 have r: "x = x3" "w' = w3" by simp_all
      have f3: "find_metric (metrics_collector w2) (NO_BLACKOUT w) 0
          = find_metric (metrics_collector w) (NO_BLACKOUT w) 0"
        using e1(5) [of "NO_BLACKOUT w"] e2(5) [of "NO_BLACKOUT w"] by simp
      have a: "l \<noteq> g \<longrightarrow> gauge_value w3 k l = gauge_value w k l"
        using e1(2) [of k l] e2(2) [of k l] e3(2) [of k l] by simp
      have b: "x3 = None \<and> distinct [BLACKOUT w, POSSIBLE_BLACKOUT w, NO_BLACKOUT w] \<longrightarrow>
         (Some v1, Some v2, Some v3)
         = (gauge_value w3 (BLACKOUT w) g, gauge_value w3 (POSSIBLE_BLACKOUT w) g,
            gauge_value w3 (NO_BLACKOUT w) g)"
        using x1 x2 e1(2) [of "BLACKOUT w" g] e2(2) [of "BLACKOUT w" g] e3(2) [of "BLACKOUT w" g]
          e2(2) [of "POSSIBLE_BLACKOUT w" g] e3(2) [of "POSSIBLE_BLACKOUT w" g]
          e3(2) [of "NO_BLACKOUT w" g] k1 k2
        by auto
      show ?thesis unfolding r
        using g03 a b e3(3) f3 k2 e1(6) e2(6) e3(6) by simp
    qed
  qed
  then show "grows w w'"
    and "l \<noteq> g \<longrightarrow> gauge_value w' k l = gauge_value w k l"
    and "clock_reads w' = clock_reads w"
    and "find_metric (metrics_collector w) (BLACKOUT w) 0 \<noteq> None
         \<and> find_metric (metrics_collector w) (POSSIBLE_BLACKOUT w) 0 \<noteq> None
         \<and> find_metric (metrics_collector w) (NO_BLACKOUT w) 0 \<noteq> None \<longrightarrow> x = None"
    and "x = None \<and> distinct [BLACKOUT w, POSSIBLE_BLACKOUT w, NO_BLACKOUT w] \<longrightarrow>
         (Some (fst (status_values b p)), Some (fst (snd (status_values b p))),
          Some (snd (snd (status_values b p))))
         = (gauge_value w' (BLACKOUT w) g, gauge_value w' (POSSIBLE_BLACKOUT w) g,
            gauge_value w' (NO_BLACKOUT w) g)"
    unfolding sv by simp_all
qed


lemma process_group_unfold:
  "process_group e g w =
     (case ensure_all (Gauge_accepts e) [BLACKOUT w, POSSIBLE_BLACKOUT w, NO_BLACKOUT w] w of
        (Some x, w1) \<Rightarrow> (Some x, w1)
      | (None, w1) \<Rightarrow>
          (case fetched e g of
             Inl x \<Rightarrow> (Some x, w1)
           | Inr components \<Rightarrow>
               (case scan (clock e) components False False (clock_reads w1) of
                  (Some x, blackout, possible_blackout, k) \<Rightarrow> (Some x, w1\<lparr>clock_reads := k\<rparr>)
                | (None, blackout, possible_blackout, k) \<Rightarrow>
                    write_gauges blackout possible_blackout g (w1\<lparr>clock_reads := k\<rparr>))))"
  by (simp add: process_group_def fetched_def split: sum.splits prod.splits option.splits)

lemma process_group_effect:
  assumes "process_group e g w = (x, w')"
  shows "grows w w'"
    and "l \<noteq> g \<longrightarrow> gauge_value w' k l = gauge_value w k l"
    and "fetched e g = Inl err \<longrightarrow>
           x \<noteq> None \<and> gauge_value w' k l = gauge_value w k l
           \<and> w' = snd (ensure_all (Gauge_accepts e) [BLACKOUT w, POSSIBLE_BLACKOUT w, NO_BLACKOUT w] w)
           \<and> (x = Some err
              \<or> x = fst (ensure_all (Gauge_accepts e) [BLACKOUT w, POSSIBLE_BLACKOUT w, NO_BLACKOUT w] w))"
    and "derivable w \<longrightarrow>
           (x = None \<longrightarrow> one_hot w' g) \<and> (x \<noteq> None \<longrightarrow> gauge_value w' k l = gauge_value w k l)"
proof -
  let ?keys = "[BLACKOUT w, POSSIBLE_BLACKOUT w, NO_BLACKOUT w]"
  obtain x0 w1 where ea: "ensure_all (Gauge_accepts e) ?keys w = (x0, w1)"
    by (cases "ensure_all (Gauge_accepts e) ?keys w")
  from ensure_all_effect [OF ea, of k l]
  have g1: "grows w w1" and v1: "gauge_value w1 k l = gauge_value w k l"
    and has: "x0 = None \<longrightarrow>
        (\<forall>key\<in>set ?keys. (\<exists>n. convert_yasno_key_to_prometheus_name key = Inr n) \<longrightarrow>
           find_metric (metrics_collector w1) key 0 \<noteq> None)"
    by blast+
  from g1 have keys1: "BLACKOUT w1 = BLACKOUT w" "POSSIBLE_BLACKOUT w1 = POSSIBLE_BLACKOUT w"
    "NO_BLACKOUT w1 = NO_BLACKOUT w"
    by (simp_all add: grows_def)
  have "grows w w'
    \<and> (l \<noteq> g \<longrightarrow> gauge_value w' k l = gauge_value w k l)
    \<and> (fetched e g = Inl err \<longrightarrow>
           x \<noteq> None \<and> gauge_value w' k l = gauge_value w k l \<and> w' = w1
           \<and> (x = Some err \<or> x = x0))
    \<and> (derivable w \<longrightarrow>
           (x = None \<longrightarrow> one_hot w' g) \<and> (x \<noteq> None \<longrightarrow> gauge_value w' k l = gauge_value w k l))"
  proof (cases x0)
    case (Some exn)
    with assms ea have "x = Some exn" "w' = w1" by (simp_all add: process_group_unfold)
    with g1 v1 Some show ?thesis by simp
  next
    case None
    show ?thesis
    proof (cases "fetched e g")
      case (Inl exn)
      with assms ea None have "x = Some exn" "w' = w1" by (simp_all add: process_group_unfold)
      with g1 v1 Inl show ?thesis by simp
    next
      case (Inr components)
      obtain xs b p n where sc: "scan (clock e) components False False (clock_reads w1) = (xs, b, p, n)"
        by (cases "scan (clock e) components False False (clock_reads w1)") auto
      let ?w2 = "w1\<lparr>clock_reads := n\<rparr>"
      have g2: "grows w ?w2" using g1 grows_clock_reads by (rule grows_trans)
      have v2: "gauge_value ?w2 k l = gauge_value w k l" using v1 by simp
      show ?thesis
      proof (cases xs)
        case (Some exn)
        with assms ea None Inr sc have "x = Some exn" "w' = ?w2"
          by (simp_all add: process_group_unfold)
        with g2 v2 Inr show ?thesis by simp
      next
        case scanned: None
        with assms ea None Inr sc have wg: "write_gauges b p g ?w2 = (x, w')"
          by (simp add: process_group_unfold)
        note eff = write_gauges_effect [OF wg]
        have g: "grows w w'" using g2 eff(1) by (rule grows_trans)
        have other: "l \<noteq> g \<longrightarrow> gauge_value w' k l = gauge_value w k l"
          using eff(2) [of l k] v2 by simp
        have good: "(x = None \<longrightarrow> one_hot w' g) \<and> (x \<noteq> None \<longrightarrow> gauge_value w' k l = gauge_value w k l)"
          if d: "derivable w"
        proof -
          from d has None keys1
          have "find_metric (metrics_collector ?w2) (BLACKOUT ?w2) 0 \<noteq> None
            \<and> find_metric (metrics_collector ?w2) (POSSIBLE_BLACKOUT ?w2) 0 \<noteq> None
            \<and> find_metric (metrics_collector ?w2) (NO_BLACKOUT ?w2) 0 \<noteq> None"
            by (auto simp add: derivable_def split: sum.splits)
          with eff(4) have x: "x = None" by blast
          from d keys1 have "distinct [BLACKOUT ?w2, POSSIBLE_BLACKOUT ?w2, NO_BLACKOUT ?w2]"
            by (simp add: derivable_def)
          with eff(5) x
          have vals: "(Some (fst (status_values b p)), Some (fst (snd (status_values b p))),
              Some (snd (snd (status_values b p))))
            = (gauge_value w' (BLACKOUT ?w2) g, gauge_value w' (POSSIBLE_BLACKOUT ?w2) g,
               gauge_value w' (NO_BLACKOUT ?w2) g)"
            by blast
          from g keys1 have keys': "BLACKOUT w' = BLACKOUT w1" "POSSIBLE_BLACKOUT w' = POSSIBLE_BLACKOUT w1"
            "NO_BLACKOUT w' = NO_BLACKOUT w1"
            by (simp_all add: grows_def)
          have "one_hot w' g"
            using status_values_one_hot [of b p] vals keys'
            by (auto simp add: one_hot_def)
          with x show ?thesis by simp
        qed
        from g other good Inr show ?thesis by simp
      qed
    qed
  qed
  then show "grows w w'"
    and "l \<noteq> g \<longrightarrow> gauge_value w' k l = gauge_value w k l"
    and "fetched e g = Inl err \<longrightarrow>
           x \<noteq> None \<and> gauge_value w' k l = gauge_value w k l
           \<and> w' = snd (ensure_all (Gauge_accepts e) [BLACKOUT w, POSSIBLE_BLACKOUT w, NO_BLACKOUT w] w)
           \<and> (x = Some err
              \<or> x = fst (ensure_all (Gauge_accepts e) [BLACKOUT w, POSSIBLE_BLACKOUT w, NO_BLACKOUT w] w))"
    and "derivable w \<longrightarrow>
           (x = None \<longrightarrow> one_hot w' g) \<and> (x \<noteq> None \<longrightarrow> gauge_value w' k l = gauge_value w k l)"
    using v1 unfolding ea by auto
qed


lemma groups_range: "map (\<lambda>id. ''group_'' @ str id) [1..<7] = groups"
  by code_simp

lemma process_calendar_groups: "process_calendar e w = for_groups e groups w"
  by (simp only: process_calendar_def groups_range)

lemma derivable_grows: "grows w w' \<Longrightarrow> derivable w \<Longrightarrow> derivable w'"
  by (simp add: grows_def derivable_def)

lemma one_hot_kept:
  assumes "grows w w'" and "\<And>k. gauge_value w' k g = gauge_value w k g" and "one_hot w g"
  shows "one_hot w' g"
proof -
  from assms(1) have "BLACKOUT w' = BLACKOUT w" "POSSIBLE_BLACKOUT w' = POSSIBLE_BLACKOUT w"
    "NO_BLACKOUT w' = NO_BLACKOUT w"
    by (simp_all add: grows_def)
  with assms(2) assms(3) show ?thesis by (simp add: one_hot_def)
qed

lemma for_groups_effect:
  "for_groups e gs w = (x, w') \<Longrightarrow>
   grows w w' \<and> (l \<notin> set gs \<longrightarrow> gauge_value w' k l = gauge_value w k l)"
proof (induction gs arbitrary: w)
  case Nil
  then show ?case by (simp add: grows_refl)
next
  case (Cons g gs)
  obtain x1 w1 where pg: "process_group e g w = (x1, w1)" by (cases "process_group e g w")
  note eff = process_group_effect(1,2) [OF pg]
  show ?case
  proof (cases x1)
    case (Some exn)
    with Cons.prems pg have "x = Some exn" "w' = w1" by simp_all
    with eff(1) eff(2) [of l k] show ?thesis by simp
  next
    case None
    with Cons.prems pg have rest: "for_groups e gs w1 = (x, w')" by simp
    from Cons.IH [OF rest] eff(1) eff(2) [of l k] show ?thesis
      by (auto intro: grows_trans)
  qed
qed

lemma for_groups_one_hot:
  "derivable w \<Longrightarrow> distinct gs \<Longrightarrow> for_groups e gs w = (None, w') \<Longrightarrow>
   \<forall>g\<in>set gs. one_hot w' g"
proof (induction gs arbitrary: w)
  case Nil
  then show ?case by simp
next
  case (Cons g gs)
  obtain x1 w1 where pg: "process_group e g w = (x1, w1)" by (cases "process_group e g w")
  from Cons.prems(3) pg have x1: "x1 = None" and rest: "for_groups e gs w1 = (None, w')"
    by (auto split: option.splits)
  from process_group_effect(1) [OF pg] have g1: "grows w w1" .
  from process_group_effect(4) [OF pg] Cons.prems(1) x1 have h1: "one_hot w1 g" by simp
  from g1 Cons.prems(1) have d1: "derivable w1" by (rule derivable_grows)
  from Cons.prems(2) have dist: "distinct gs" and fresh: "g \<notin> set gs" by simp_all
  from Cons.IH [OF d1 dist rest] have tail: "\<forall>g\<in>set gs. one_hot w' g" .
  from for_groups_effect [OF rest] have g2: "grows w1 w'" by simp
  have "gauge_value w' k g = gauge_value w1 k g" for k
    using for_groups_effect [OF rest, of g k] fresh by simp
  with g2 have "one_hot w' g" using h1 by (rule one_hot_kept)
  with tail show ?case by simp
qed

lemma for_groups_failed_fetch:
  "fetched e g = Inl err \<Longrightarrow> for_groups e gs w = (x, w') \<Longrightarrow>
   gauge_value w' k g = gauge_value w k g \<and> (g \<in> set gs \<longrightarrow> x \<noteq> None)"
proof (induction gs arbitrary: w)
  case Nil
  then show ?case by simp
next
  case (Cons h gs)
  obtain x1 w1 where pg: "process_group e h w = (x1, w1)" by (cases "process_group e h w")
  have v1: "gauge_value w1 k g = gauge_value w k g"
  proof (cases "h = g")
    case True
    with process_group_effect(3) [OF pg, of err k g] Cons.prems(1) show ?thesis by blast
  next
    case False
    with process_group_effect(2) [OF pg, of g k] show ?thesis by simp
  qed
  show ?case
  proof (cases x1)
    case (Some exn)
    with Cons.prems(2) pg have "x = Some exn" "w' = w1" by simp_all
    with v1 show ?thesis by simp
  next
    case None
    with Cons.prems(2) pg have rest: "for_groups e gs w1 = (x, w')" by simp
    have "h \<noteq> g"
    proof
      assume "h = g"
      with process_group_effect(3) [OF pg, of err k g] Cons.prems(1) None show False by blast
    qed
    with Cons.IH [OF Cons.prems(1) rest] v1 show ?thesis by simp
  qed
qed



section \<open>Properties of the poll cycle\<close>

lemma convert_blackout: "convert_yasno_key_to_prometheus_name ''blackout'' = Inr ''blackout''"
  by code_simp

lemma convert_possible_blackout:
  "convert_yasno_key_to_prometheus_name ''possible_blackout'' = Inr ''possible_blackout''"
  by code_simp

lemma convert_no_blackout: "convert_yasno_key_to_prometheus_name ''no_blackout'' = Inr ''no_blackout''"
  by code_simp

lemma worker_keys_derivable:
  "BLACKOUT w = ''blackout'' \<Longrightarrow> POSSIBLE_BLACKOUT w = ''possible_blackout'' \<Longrightarrow>
   NO_BLACKOUT w = ''no_blackout'' \<Longrightarrow> derivable w"
  by (simp add: derivable_def convert_blackout convert_possible_blackout convert_no_blackout)

lemma distinct_groups: "distinct groups"
  by (simp add: groups_def)

text \<open>
  C1. With the keys that \<^verbatim>\<open>Worker.__init__\<close> sets: when the processing of a group
  ends without an exception, exactly one of the three gauges holds 1 at the group's
  label and the other two hold 0; when it ends with an exception, no value of any gauge
  at any label has changed, so the three values of a group are written all or not at
  all. After a run over distinct groups that ends without an exception this holds for
  every one of them, and a cycle is such a run over the six groups.
\<close>

theorem gauges_written_together:
  assumes "BLACKOUT w = ''blackout''" and "POSSIBLE_BLACKOUT w = ''possible_blackout''"
    and "NO_BLACKOUT w = ''no_blackout''"
  shows "(process_group e g w = (None, w1) \<longrightarrow>
           (gauge_value w1 ''blackout'' g, gauge_value w1 ''possible_blackout'' g,
            gauge_value w1 ''no_blackout'' g)
           \<in> {(Some 1, Some 0, Some 0), (Some 0, Some 1, Some 0), (Some 0, Some 0, Some 1)})
     \<and> (process_group e g w = (Some x, w1) \<longrightarrow> gauge_value w1 k l = gauge_value w k l)
     \<and> (distinct gs \<and> for_groups e gs w = (None, w2) \<longrightarrow>
          (\<forall>g\<in>set gs.
             (gauge_value w2 ''blackout'' g, gauge_value w2 ''possible_blackout'' g,
              gauge_value w2 ''no_blackout'' g)
             \<in> {(Some 1, Some 0, Some 0), (Some 0, Some 1, Some 0), (Some 0, Some 0, Some 1)}))
     \<and> process_calendar e w = for_groups e groups w \<and> distinct groups"
proof -
  from assms have d: "derivable w" by (rule worker_keys_derivable)
  have a: "(gauge_value w1 ''blackout'' g, gauge_value w1 ''possible_blackout'' g,
            gauge_value w1 ''no_blackout'' g)
           \<in> {(Some 1, Some 0, Some 0), (Some 0, Some 1, Some 0), (Some 0, Some 0, Some 1)}"
    if pg: "process_group e g w = (None, w1)"
  proof -
    from process_group_effect(4) [OF pg] d have "one_hot w1 g" by simp
    moreover from process_group_effect(1) [OF pg] assms
    have "BLACKOUT w1 = ''blackout''" "POSSIBLE_BLACKOUT w1 = ''possible_blackout''"
      "NO_BLACKOUT w1 = ''no_blackout''"
      by (simp_all add: grows_def)
    ultimately show ?thesis by (simp add: one_hot_def)
  qed
  have b: "gauge_value w1 k l = gauge_value w k l" if pg: "process_group e g w = (Some x, w1)"
    using process_group_effect(4) [OF pg, of k l] d by simp
  have c: "\<forall>g\<in>set gs.
             (gauge_value w2 ''blackout'' g, gauge_value w2 ''possible_blackout'' g,
              gauge_value w2 ''no_blackout'' g)
             \<in> {(Some 1, Some 0, Some 0), (Some 0, Some 1, Some 0), (Some 0, Some 0, Some 1)}"
    if dist: "distinct gs" and fg: "for_groups e gs w = (None, w2)"
  proof -
    from for_groups_one_hot [OF d dist fg] have "\<forall>g\<in>set gs. one_hot w2 g" .
    moreover from for_groups_effect [OF fg] assms
    have "BLACKOUT w2 = ''blackout''" "POSSIBLE_BLACKOUT w2 = ''possible_blackout''"
      "NO_BLACKOUT w2 = ''no_blackout''"
      by (simp_all add: grows_def)
    ultimately show ?thesis by (simp add: one_hot_def)
  qed
  from a b c process_calendar_groups [of e w] distinct_groups show ?thesis by blast
qed

theorem gauges_written_together_witness:
  "BLACKOUT (Worker 300) = ''blackout'' \<and> POSSIBLE_BLACKOUT (Worker 300) = ''possible_blackout''
   \<and> NO_BLACKOUT (Worker 300) = ''no_blackout''
   \<and> fst (process_group calm ''group_1'' (Worker 300)) = None
   \<and> (gauge_value (snd (process_group calm ''group_1'' (Worker 300))) ''blackout'' ''group_1'',
       gauge_value (snd (process_group calm ''group_1'' (Worker 300))) ''possible_blackout'' ''group_1'',
       gauge_value (snd (process_group calm ''group_1'' (Worker 300))) ''no_blackout'' ''group_1'')
      \<in> {(Some 1, Some 0, Some 0), (Some 0, Some 1, Some 0), (Some 0, Some 0, Some 1)}
   \<and> fst (process_group group_1_down ''group_1'' (Worker 300)) = Some RequestException
   \<and> gauge_value (snd (process_group group_1_down ''group_1'' (Worker 300))) ''no_blackout'' ''group_1''
      = gauge_value (Worker 300) ''no_blackout'' ''group_1''
   \<and> distinct [''group_1'', ''group_2'']
   \<and> fst (for_groups calm [''group_1'', ''group_2''] (Worker 300)) = None
   \<and> (gauge_value (snd (for_groups calm [''group_1'', ''group_2''] (Worker 300))) ''blackout'' ''group_1'',
          gauge_value (snd (for_groups calm [''group_1'', ''group_2''] (Worker 300))) ''possible_blackout'' ''group_1'',
          gauge_value (snd (for_groups calm [''group_1'', ''group_2''] (Worker 300))) ''no_blackout'' ''group_1'')
         \<in> {(Some 1, Some 0, Some 0), (Some 0, Some 1, Some 0), (Some 0, Some 0, Some 1)}
   \<and> (gauge_value (snd (for_groups calm [''group_1'', ''group_2''] (Worker 300))) ''blackout'' ''group_2'',
          gauge_value (snd (for_groups calm [''group_1'', ''group_2''] (Worker 300))) ''possible_blackout'' ''group_2'',
          gauge_value (snd (for_groups calm [''group_1'', ''group_2''] (Worker 300))) ''no_blackout'' ''group_2'')
         \<in> {(Some 1, Some 0, Some 0), (Some 0, Some 1, Some 0), (Some 0, Some 0, Some 1)}"
proof -
  have k: "BLACKOUT (Worker 300) = ''blackout''" "POSSIBLE_BLACKOUT (Worker 300) = ''possible_blackout''"
    "NO_BLACKOUT (Worker 300) = ''no_blackout''"
    by (simp_all add: Worker_def)
  have f1: "fst (process_group calm ''group_1'' (Worker 300)) = None" by code_simp
  then have e1: "process_group calm ''group_1'' (Worker 300)
      = (None, snd (process_group calm ''group_1'' (Worker 300)))"
    by (simp add: prod_eq_iff)
  have f2: "fst (process_group group_1_down ''group_1'' (Worker 300)) = Some RequestException"
    by code_simp
  then have e2: "process_group group_1_down ''group_1'' (Worker 300)
      = (Some RequestException, snd (process_group group_1_down ''group_1'' (Worker 300)))"
    by (simp add: prod_eq_iff)
  have d3: "distinct [''group_1'', ''group_2'']" by simp
  have f3: "fst (for_groups calm [''group_1'', ''group_2''] (Worker 300)) = None" by code_simp
  then have e3: "for_groups calm [''group_1'', ''group_2''] (Worker 300)
      = (None, snd (for_groups calm [''group_1'', ''group_2''] (Worker 300)))"
    by (simp add: prod_eq_iff)
  note t1 = gauges_written_together [OF k, of calm "''group_1''"
      "snd (process_group calm ''group_1'' (Worker 300))" RequestException
      "''no_blackout''" "''group_1''" "[''group_1'', ''group_2'']"
      "snd (for_groups calm [''group_1'', ''group_2''] (Worker 300))"]
  note t2 = gauges_written_together [OF k, of group_1_down "''group_1''"
      "snd (process_group group_1_down ''group_1'' (Worker 300))" RequestException
      "''no_blackout''" "''group_1''" "[]"
      "snd (process_group group_1_down ''group_1'' (Worker 300))"]
  from t1 e1 have a: "(gauge_value (snd (process_group calm ''group_1'' (Worker 300))) ''blackout'' ''group_1'',
       gauge_value (snd (process_group calm ''group_1'' (Worker 300))) ''possible_blackout'' ''group_1'',
       gauge_value (snd (process_group calm ''group_1'' (Worker 300))) ''no_blackout'' ''group_1'')
      \<in> {(Some 1, Some 0, Some 0), (Some 0, Some 1, Some 0), (Some 0, Some 0, Some 1)}"
    by blast
  from t2 e2 have b: "gauge_value (snd (process_group group_1_down ''group_1'' (Worker 300))) ''no_blackout'' ''group_1''
      = gauge_value (Worker 300) ''no_blackout'' ''group_1''"
    by blast
  from t1 d3 e3 have c: "\<forall>g\<in>set [''group_1'', ''group_2''].
         (gauge_value (snd (for_groups calm [''group_1'', ''group_2''] (Worker 300))) ''blackout'' g,
          gauge_value (snd (for_groups calm [''group_1'', ''group_2''] (Worker 300))) ''possible_blackout'' g,
          gauge_value (snd (for_groups calm [''group_1'', ''group_2''] (Worker 300))) ''no_blackout'' g)
         \<in> {(Some 1, Some 0, Some 0), (Some 0, Some 1, Some 0), (Some 0, Some 0, Some 1)}"
    by blast
  from c have c1: "(gauge_value (snd (for_groups calm [''group_1'', ''group_2''] (Worker 300))) ''blackout'' ''group_1'',
          gauge_value (snd (for_groups calm [''group_1'', ''group_2''] (Worker 300))) ''possible_blackout'' ''group_1'',
          gauge_value (snd (for_groups calm [''group_1'', ''group_2''] (Worker 300))) ''no_blackout'' ''group_1'')
         \<in> {(Some 1, Some 0, Some 0), (Some 0, Some 1, Some 0), (Some 0, Some 0, Some 1)}"
    and c2: "(gauge_value (snd (for_groups calm [''group_1'', ''group_2''] (Worker 300))) ''blackout'' ''group_2'',
          gauge_value (snd (for_groups calm [''group_1'', ''group_2''] (Worker 300))) ''possible_blackout'' ''group_2'',
          gauge_value (snd (for_groups calm [''group_1'', ''group_2''] (Worker 300))) ''no_blackout'' ''group_2'')
         \<in> {(Some 1, Some 0, Some 0), (Some 0, Some 1, Some 0), (Some 0, Some 0, Some 1)}"
    by simp_all
  from k f1 a f2 b d3 f3 c1 c2 show ?thesis by (intro conjI)
qed


lemma process_group_status_ignored:
  "process_group
     (e\<lparr>requests_get :=
          (\<lambda>url. case requests_get e url of
                   Inl x \<Rightarrow> Inl x
                 | Inr resp \<Rightarrow> Inr (resp\<lparr>status_code := code\<rparr>))\<rparr>) g w
   = process_group e g w"
proof -
  let ?e = "e\<lparr>requests_get :=
          (\<lambda>url. case requests_get e url of
                   Inl x \<Rightarrow> Inl x
                 | Inr resp \<Rightarrow> Inr (resp\<lparr>status_code := code\<rparr>))\<rparr>"
  have "fetched ?e g = fetched e g"
    by (simp add: fetched_def split: sum.splits)
  moreover have "Gauge_accepts ?e = Gauge_accepts e" and "clock ?e = clock e" by simp_all
  ultimately show ?thesis by (simp only: process_group_unfold)
qed

lemma loop_raises:
  "process_calendar e w = (Some x, w') \<Longrightarrow> loop (e # es) w = (Some x, w')"
  by simp

text \<open>
  C3. Nothing catches an exception of the request or of the parse. With a request that
  raises for the first group, the loop ends in its first cycle with that exception, and
  no call of \<^verbatim>\<open>log.error\<close> has been made.
\<close>

theorem fetch_failure_counterexample:
  "fetched group_1_down ''group_1'' = Inl RequestException
   \<and> fst (loop [group_1_down, calm] (Worker 300)) = Some RequestException
   \<and> filter is_error_record (logged (snd (loop [group_1_down, calm] (Worker 300)))) = []"
proof -
  have "fetched group_1_down ''group_1'' = Inl RequestException" by code_simp
  moreover have "fst (loop [group_1_down, calm] (Worker 300)) = Some RequestException"
    by code_simp
  moreover have "filter is_error_record (logged (snd (loop [group_1_down, calm] (Worker 300)))) = []"
    by code_simp
  ultimately show ?thesis by (intro conjI)
qed

text \<open>
  C3, as amended. When the request or the parse for a group raises, the processing of
  the group ends with an exception, in the state that the loop over the keys has left:
  no value of any gauge has changed, and the exception is the one of the fetch unless
  the loop over the keys has raised before. The cycle that reaches the group ends with
  an exception, the values at the group's label are those before the cycle, and the
  poll loop ends with the same exception. The status of a response plays no part: the
  body is parsed whatever the status.
\<close>

theorem fetch_failure_ends_loop:
  assumes "fetched e g = Inl err"
  shows "(process_group e g w = (x, w1) \<longrightarrow>
            x \<noteq> None \<and> gauge_value w1 k l = gauge_value w k l
            \<and> w1 = snd (ensure_all (Gauge_accepts e) [BLACKOUT w, POSSIBLE_BLACKOUT w, NO_BLACKOUT w] w)
            \<and> (x = Some err
               \<or> x = fst (ensure_all (Gauge_accepts e) [BLACKOUT w, POSSIBLE_BLACKOUT w, NO_BLACKOUT w] w)))
     \<and> (g \<in> set groups \<and> process_calendar e w = (y, w2) \<longrightarrow>
            y \<noteq> None \<and> gauge_value w2 k g = gauge_value w k g \<and> loop (e # es) w = (y, w2))
     \<and> process_group
          (e\<lparr>requests_get :=
               (\<lambda>url. case requests_get e url of
                        Inl x \<Rightarrow> Inl x
                      | Inr resp \<Rightarrow> Inr (resp\<lparr>status_code := code\<rparr>))\<rparr>) g w
        = process_group e g w"
proof -
  have a: "x \<noteq> None \<and> gauge_value w1 k l = gauge_value w k l
            \<and> w1 = snd (ensure_all (Gauge_accepts e) [BLACKOUT w, POSSIBLE_BLACKOUT w, NO_BLACKOUT w] w)
            \<and> (x = Some err
               \<or> x = fst (ensure_all (Gauge_accepts e) [BLACKOUT w, POSSIBLE_BLACKOUT w, NO_BLACKOUT w] w))"
    if pg: "process_group e g w = (x, w1)"
    using process_group_effect(3) [OF pg, of err k l] assms by blast
  have b: "y \<noteq> None \<and> gauge_value w2 k g = gauge_value w k g \<and> loop (e # es) w = (y, w2)"
    if g: "g \<in> set groups" and pc: "process_calendar e w = (y, w2)"
  proof -
    from pc have fg: "for_groups e groups w = (y, w2)" by (simp only: process_calendar_groups)
    from for_groups_failed_fetch [OF assms fg, of k] g
    have y: "y \<noteq> None" and v: "gauge_value w2 k g = gauge_value w k g" by simp_all
    from y obtain exn where "y = Some exn" by auto
    with pc have "loop (e # es) w = (y, w2)" by (simp add: loop_raises)
    with y v show ?thesis by simp
  qed
  from a b process_group_status_ignored [where e = e and code = code and g = g and w = w]
  show ?thesis by blast
qed

theorem fetch_failure_ends_loop_witness:
  "fetched group_1_down ''group_1'' = Inl RequestException
   \<and> ''group_1'' \<in> set groups
   \<and> fst (process_calendar group_1_down (Worker 300)) \<noteq> None
   \<and> gauge_value (snd (process_calendar group_1_down (Worker 300))) ''no_blackout'' ''group_1''
      = gauge_value (Worker 300) ''no_blackout'' ''group_1''
   \<and> loop [group_1_down, calm] (Worker 300) = process_calendar group_1_down (Worker 300)"
proof -
  have f: "fetched group_1_down ''group_1'' = Inl RequestException" by code_simp
  have g: "''group_1'' \<in> set groups" by (simp add: groups_def)
  have p: "process_calendar group_1_down (Worker 300)
      = (fst (process_calendar group_1_down (Worker 300)),
         snd (process_calendar group_1_down (Worker 300)))"
    by simp
  from fetch_failure_ends_loop [OF f, where w = "Worker 300"
      and x = "fst (process_group group_1_down ''group_1'' (Worker 300))"
      and ?w1.0 = "snd (process_group group_1_down ''group_1'' (Worker 300))"
      and k = "''no_blackout''" and l = "''group_1''"
      and y = "fst (process_calendar group_1_down (Worker 300))"
      and ?w2.0 = "snd (process_calendar group_1_down (Worker 300))"
      and es = "[calm]" and code = 200] g p
  have "fst (process_calendar group_1_down (Worker 300)) \<noteq> None
     \<and> gauge_value (snd (process_calendar group_1_down (Worker 300))) ''no_blackout'' ''group_1''
        = gauge_value (Worker 300) ''no_blackout'' ''group_1''
     \<and> loop [group_1_down, calm] (Worker 300)
        = (fst (process_calendar group_1_down (Worker 300)),
           snd (process_calendar group_1_down (Worker 300)))"
    by blast
  with f g show ?thesis by simp
qed






lemma ensure_underivable:
  assumes "convert_yasno_key_to_prometheus_name key = Inl err"
    and "ensure accepts key w = (r, w')"
  shows "metrics_collector w' = metrics_collector w \<and> REGISTRY w' = REGISTRY w"
proof (cases "find_metric (metrics_collector w) key 0")
  case (Some j)
  from assms(2) ensure_found [OF Some, of accepts] show ?thesis by auto
next
  case None
  from assms(1) have y: "YasnoMetric accepts key (REGISTRY w) = Inl err"
    by (simp add: YasnoMetric_def)
  show ?thesis
  proof (cases "\<exists>k. err = YasnoMetricException k")
    case True
    then obtain k where "err = YasnoMetricException k" by blast
    with assms(2) ensure_skipped [OF None, of accepts k] y show ?thesis by auto
  next
    case False
    then have "\<forall>k. err \<noteq> YasnoMetricException k" by blast
    from assms(2) ensure_raised [OF None y this] show ?thesis by auto
  qed
qed

lemma ensure_registers:
  assumes "convert_yasno_key_to_prometheus_name key = Inr n"
    and "find_metric (metrics_collector w) key 0 = None"
    and "accepts (''yasno_'' @ n)" and "''yasno_'' @ n \<notin> set (REGISTRY w)"
    and "ensure accepts key w = (r, w')"
  shows "r = Inr (Some (length (metrics_collector w)))
    \<and> metrics_collector w' = metrics_collector w
         @ [\<lparr>yasno_key = key, name = ''yasno_'' @ n, metric = Map.empty\<rparr>]
    \<and> REGISTRY w' = REGISTRY w @ [''yasno_'' @ n]"
proof -
  from assms(1,3,4)
  have "YasnoMetric accepts key (REGISTRY w)
      = Inr (\<lparr>yasno_key = key, name = ''yasno_'' @ n, metric = Map.empty\<rparr>,
             REGISTRY w @ [''yasno_'' @ n])"
    by (simp add: YasnoMetric_def Gauge_def)
  from assms(5) ensure_created [OF assms(2) this] show ?thesis by auto
qed

lemma re_match_None: "re_match new = None \<longleftrightarrow> new = [] \<or> \<not> first_class (hd new)"
  by (cases new) (simp_all add: re_match_def)

lemma convert_cases:
  assumes "replace_dot key = k0 # rest"
  shows "(convert_yasno_key_to_prometheus_name key = Inl (YasnoMetricException key))
           = (re_match (convert_loop [lower k0] rest) = None)"
    and "(convert_yasno_key_to_prometheus_name key = Inr (convert_loop [lower k0] rest))
           = (re_match (convert_loop [lower k0] rest) \<noteq> None)"
  using assms by (simp_all add: convert_yasno_key_to_prometheus_name_def Let_def)

lemma ensure_rejected:
  assumes "convert_yasno_key_to_prometheus_name key = Inr n"
    and "find_metric (metrics_collector w) key 0 = None"
    and "\<not> accepts (''yasno_'' @ n) \<or> ''yasno_'' @ n \<in> set (REGISTRY w)"
    and "ensure accepts key w = (r, w')"
  shows "r = Inl ValueError \<and> metrics_collector w' = metrics_collector w
    \<and> REGISTRY w' = REGISTRY w"
proof -
  from assms(1,3) have y: "YasnoMetric accepts key (REGISTRY w) = Inl ValueError"
    by (auto simp add: YasnoMetric_def Gauge_def)
  have "\<forall>k. ValueError \<noteq> YasnoMetricException k" by simp
  from assms(4) ensure_raised [OF assms(2) y this] show ?thesis by auto
qed

lemma convert_a_b: "convert_yasno_key_to_prometheus_name ''a-b'' = Inr ''a-b''"
  by code_simp

lemma legacy_rejects_a_b: "\<not> legacy_accepts (''yasno_'' @ ''a-b'')"
  by code_simp

text \<open>
  C6. The key \<^verbatim>\<open>a-b\<close> passes the check of the module, which looks at the start of the
  name only. With a metrics library that holds the whole name to the pattern, the
  constructor of the gauge raises \<^verbatim>\<open>ValueError\<close>, which the handler does not catch,
  and nothing is registered.
\<close>

theorem registration_counterexample:
  "convert_yasno_key_to_prometheus_name ''a-b'' = Inr ''a-b''
   \<and> re_match ''a-b'' = Some ''a''
   \<and> \<not> legacy_accepts ''yasno_a-b''
   \<and> fst (ensure legacy_accepts ''a-b'' (Worker 300)) = Inl ValueError
   \<and> REGISTRY (snd (ensure legacy_accepts ''a-b'' (Worker 300))) = []
   \<and> length (metrics_collector (snd (ensure legacy_accepts ''a-b'' (Worker 300)))) = 0"
proof -
  have "re_match ''a-b'' = Some ''a''" by code_simp
  moreover have "\<not> legacy_accepts ''yasno_a-b''" by code_simp
  moreover have "fst (ensure legacy_accepts ''a-b'' (Worker 300)) = Inl ValueError"
    by code_simp
  moreover have "REGISTRY (snd (ensure legacy_accepts ''a-b'' (Worker 300))) = []"
    by code_simp
  moreover have "length (metrics_collector (snd (ensure legacy_accepts ''a-b'' (Worker 300)))) = 0"
    by code_simp
  ultimately show ?thesis using convert_a_b by (intro conjI)
qed

text \<open>
  C6, as amended. For a key that is not empty the derivation raises
  \<^verbatim>\<open>YasnoMetricException\<close> exactly when \<^verbatim>\<open>re.match\<close> returns \<^verbatim>\<open>None\<close> for the derived
  name, and that is exactly when the name's first character is outside the first
  class: the characters after it play no part. When the derivation raises, the body
  for the key leaves the list of metrics and the registry as they are. The key
  \<^verbatim>\<open>a-b\<close> passes, although the match covers its first character only. For a key that
  passes and has no metric yet, a gauge named \<^verbatim>\<open>yasno_\<close> plus the derived name is
  registered when the metrics library accepts the name and has not registered it
  before; otherwise the constructor's \<^verbatim>\<open>ValueError\<close> leaves the body and the list of
  metrics and the registry stay as they are.
\<close>

theorem validation_start_anchored:
  "(replace_dot key = k0 # rest \<longrightarrow>
      (convert_yasno_key_to_prometheus_name key = Inl (YasnoMetricException key))
         = (re_match (convert_loop [lower k0] rest) = None)
      \<and> (convert_yasno_key_to_prometheus_name key = Inr (convert_loop [lower k0] rest))
         = (re_match (convert_loop [lower k0] rest) \<noteq> None))
   \<and> (re_match new = None) = (new = [] \<or> \<not> first_class (hd new))
   \<and> (convert_yasno_key_to_prometheus_name key = Inl err \<and> ensure accepts key w = (r, w') \<longrightarrow>
        metrics_collector w' = metrics_collector w \<and> REGISTRY w' = REGISTRY w)
   \<and> convert_yasno_key_to_prometheus_name ''a-b'' = Inr ''a-b''
   \<and> re_match ''a-b'' = Some ''a''
   \<and> (convert_yasno_key_to_prometheus_name key = Inr n
        \<and> find_metric (metrics_collector w) key 0 = None
        \<and> accepts (''yasno_'' @ n) \<and> ''yasno_'' @ n \<notin> set (REGISTRY w)
        \<and> ensure accepts key w = (r, w') \<longrightarrow>
        r = Inr (Some (length (metrics_collector w)))
        \<and> metrics_collector w' = metrics_collector w
             @ [\<lparr>yasno_key = key, name = ''yasno_'' @ n, metric = Map.empty\<rparr>]
        \<and> REGISTRY w' = REGISTRY w @ [''yasno_'' @ n])
   \<and> (convert_yasno_key_to_prometheus_name key = Inr n
        \<and> find_metric (metrics_collector w) key 0 = None
        \<and> (\<not> accepts (''yasno_'' @ n) \<or> ''yasno_'' @ n \<in> set (REGISTRY w))
        \<and> ensure accepts key w = (r, w') \<longrightarrow>
        r = Inl ValueError \<and> metrics_collector w' = metrics_collector w
        \<and> REGISTRY w' = REGISTRY w)"
proof -
  have "re_match ''a-b'' = Some ''a''" by code_simp
  then show ?thesis
    using convert_a_b convert_cases [of key k0 rest] re_match_None [of new]
      ensure_underivable [of key err accepts w r w'] ensure_registers [of key n w accepts r w']
      ensure_rejected [of key n w accepts r w']
    by blast
qed

theorem validation_start_anchored_witness:
  "replace_dot ''a-b'' = CHR ''a'' # ''-b''
   \<and> re_match (convert_loop [lower CHR ''a''] ''-b'') \<noteq> None
   \<and> convert_yasno_key_to_prometheus_name ''a-b'' = Inr ''a-b''
   \<and> find_metric (metrics_collector (Worker 300)) ''a-b'' 0 = None
   \<and> ''yasno_a-b'' \<notin> set (REGISTRY (Worker 300))
   \<and> fst (ensure (\<lambda>n. True) ''a-b'' (Worker 300)) = Inr (Some 0)
   \<and> REGISTRY (snd (ensure (\<lambda>n. True) ''a-b'' (Worker 300))) = [''yasno_a-b'']
   \<and> convert_yasno_key_to_prometheus_name ''0_blackout'' = Inl (YasnoMetricException ''0_blackout'')
   \<and> REGISTRY (snd (ensure (\<lambda>n. True) ''0_blackout'' (Worker 300))) = []
   \<and> \<not> legacy_accepts (''yasno_'' @ ''a-b'')
   \<and> fst (ensure legacy_accepts ''a-b'' (Worker 300)) = Inl ValueError
   \<and> REGISTRY (snd (ensure legacy_accepts ''a-b'' (Worker 300))) = []"
proof -
  have r: "replace_dot ''a-b'' = CHR ''a'' # ''-b''" by code_simp
  have c: "convert_yasno_key_to_prometheus_name ''a-b'' = Inr ''a-b''" by code_simp
  have l: "convert_loop [lower CHR ''a''] ''-b'' = ''a-b''" by code_simp
  have f: "find_metric (metrics_collector (Worker 300)) ''a-b'' 0 = None"
    by (simp add: Worker_def)
  have g: "''yasno_a-b'' \<notin> set (REGISTRY (Worker 300))" by (simp add: Worker_def)
  have g': "''yasno_'' @ ''a-b'' \<notin> set (REGISTRY (Worker 300))" by (simp add: Worker_def)
  have z: "convert_yasno_key_to_prometheus_name ''0_blackout''
      = Inl (YasnoMetricException ''0_blackout'')"
    by code_simp
  have e1: "ensure (\<lambda>n. True) ''a-b'' (Worker 300)
      = (fst (ensure (\<lambda>n. True) ''a-b'' (Worker 300)), snd (ensure (\<lambda>n. True) ''a-b'' (Worker 300)))"
    by simp
  have e2: "ensure (\<lambda>n. True) ''0_blackout'' (Worker 300)
      = (fst (ensure (\<lambda>n. True) ''0_blackout'' (Worker 300)),
         snd (ensure (\<lambda>n. True) ''0_blackout'' (Worker 300)))"
    by simp
  note t1 = validation_start_anchored [where key = "''a-b''" and ?k0.0 = "CHR ''a''"
      and rest = "''-b''" and n = "''a-b''" and w = "Worker 300" and accepts = "\<lambda>n. True"
      and r = "fst (ensure (\<lambda>n. True) ''a-b'' (Worker 300))"
      and w' = "snd (ensure (\<lambda>n. True) ''a-b'' (Worker 300))"]
  note t2 = validation_start_anchored [where key = "''0_blackout''"
      and err = "YasnoMetricException ''0_blackout''" and w = "Worker 300"
      and accepts = "\<lambda>n. True"
      and r = "fst (ensure (\<lambda>n. True) ''0_blackout'' (Worker 300))"
      and w' = "snd (ensure (\<lambda>n. True) ''0_blackout'' (Worker 300))"]
  from t1 r c have m: "re_match (convert_loop [lower CHR ''a''] ''-b'') \<noteq> None"
    unfolding l by blast
  from t1 c f g' e1
  have a: "fst (ensure (\<lambda>n. True) ''a-b'' (Worker 300)) = Inr (Some (length (metrics_collector (Worker 300))))
      \<and> REGISTRY (snd (ensure (\<lambda>n. True) ''a-b'' (Worker 300))) = REGISTRY (Worker 300) @ [''yasno_'' @ ''a-b'']"
    by blast
  from t2 z e2
  have b: "REGISTRY (snd (ensure (\<lambda>n. True) ''0_blackout'' (Worker 300))) = REGISTRY (Worker 300)"
    by blast
  have e3: "ensure legacy_accepts ''a-b'' (Worker 300)
      = (fst (ensure legacy_accepts ''a-b'' (Worker 300)),
         snd (ensure legacy_accepts ''a-b'' (Worker 300)))"
    by simp
  note t3 = validation_start_anchored [where key = "''a-b''" and n = "''a-b''"
      and w = "Worker 300" and accepts = legacy_accepts
      and r = "fst (ensure legacy_accepts ''a-b'' (Worker 300))"
      and w' = "snd (ensure legacy_accepts ''a-b'' (Worker 300))"]
  from t3 c f legacy_rejects_a_b e3
  have d: "fst (ensure legacy_accepts ''a-b'' (Worker 300)) = Inl ValueError
      \<and> REGISTRY (snd (ensure legacy_accepts ''a-b'' (Worker 300))) = REGISTRY (Worker 300)"
    by blast
  from r m c f g a b z d legacy_rejects_a_b show ?thesis by (simp add: Worker_def)
qed









end
